theory Spec2Isabelle
  imports Complex_Main
begin

section \<open>Strings as Python sees them\<close>

text \<open>
  A Python \<open>str\<close> is modelled as a \<open>string\<close>, a list of 8-bit characters: the model covers
  the code points below 256. On these, \<open>str.isspace\<close>, the regular expression class
  \<open>\s\<close> and \<open>str.strip()\<close> agree on the whitespace characters, \<open>\d\<close> is the ten ASCII
  digits, and \<open>str.lower()\<close> maps one character to one character.
\<close>

definition is_space :: "char \<Rightarrow> bool" where
  "is_space c = (let n = (of_char c :: nat) in
     (9 \<le> n \<and> n \<le> 13) \<or> (28 \<le> n \<and> n \<le> 32) \<or> n = 133 \<or> n = 160)"

definition is_digit :: "char \<Rightarrow> bool" where
  "is_digit c = (let n = (of_char c :: nat) in 48 \<le> n \<and> n \<le> 57)"

definition lower_char :: "char \<Rightarrow> char" where
  "lower_char c = (let n = (of_char c :: nat) in
     if (65 \<le> n \<and> n \<le> 90) \<or> (192 \<le> n \<and> n \<le> 222 \<and> n \<noteq> 215)
     then char_of (n + 32) else c)"

definition lower :: "string \<Rightarrow> string" where
  "lower s = map lower_char s"

text \<open>\<open>pat in s\<close>: some suffix of \<open>s\<close> starts with \<open>pat\<close>.\<close>

definition starts_with :: "string \<Rightarrow> string \<Rightarrow> bool" where
  "starts_with pat s = (take (length pat) s = pat)"

fun contains :: "string \<Rightarrow> string \<Rightarrow> bool" where
  "contains pat [] = (pat = [])"
| "contains pat (c # s) = (starts_with pat (c # s) \<or> contains pat s)"

text \<open>\<open>s.strip()\<close> removes the whitespace at both ends.\<close>

definition strip :: "string \<Rightarrow> string" where
  "strip s = rev (dropWhile is_space (rev (dropWhile is_space s)))"

text \<open>\<open>sep.join(xs)\<close>.\<close>

fun join :: "string \<Rightarrow> string list \<Rightarrow> string" where
  "join sep [] = []"
| "join sep [x] = x"
| "join sep (x # y # ys) = x @ sep @ join sep (y # ys)"

text \<open>\<open>s.split(sep)\<close> for a separator of one character: never an empty list.\<close>

fun split_on :: "char \<Rightarrow> string \<Rightarrow> string list" where
  "split_on sep [] = [[]]"
| "split_on sep (c # s) =
     (if c = sep then [] # split_on sep s
      else (case split_on sep s of
              [] \<Rightarrow> [[c]]
            | p # ps \<Rightarrow> (c # p) # ps))"

text \<open>\<open>os.path.basename\<close> of \<open>posixpath\<close>: what follows the last slash.\<close>

definition basename :: "string \<Rightarrow> string" where
  "basename p = rev (takeWhile (\<lambda>c. c \<noteq> CHR ''/'') (rev p))"

text \<open>The decimal digits of a number, as \<open>str(n)\<close> and an f-string print them.\<close>

definition digit_char :: "nat \<Rightarrow> char" where
  "digit_char d = char_of (48 + d)"

fun str_nat :: "nat \<Rightarrow> string" where
  "str_nat n = (if n < 10 then [digit_char n] else str_nat (n div 10) @ [digit_char (n mod 10)])"

declare str_nat.simps [simp del]


section \<open>The answer parser\<close>

text \<open>
  \<open>re.split(r'\n\d+\.\s*', response_text)\<close>. A match starts at a newline, takes the digits
  that follow (at least one), a period, and all the whitespace after it. The digits and the
  whitespace are taken greedily, and giving some back never helps: a digit is not a period.
  \<open>match_marker s\<close> is what remains of \<open>s\<close> after a match at its start.
\<close>

definition match_marker :: "string \<Rightarrow> string option" where
  "match_marker s =
     (case s of
        [] \<Rightarrow> None
      | c # r \<Rightarrow>
          if c \<noteq> CHR 0x0A then None
          else if takeWhile is_digit r = [] then None
          else (case dropWhile is_digit r of
                  [] \<Rightarrow> None
                | d # r' \<Rightarrow> if d = CHR ''.'' then Some (dropWhile is_space r') else None))"

text \<open>
  The scan of \<open>re.split\<close>: \<open>cur\<close> is the fragment read since the last match. At a match the
  fragment is closed and the scan goes on after the match; otherwise the character joins
  the fragment. The fragment open at the end of the text is the last one.
\<close>

function re_split :: "string \<Rightarrow> string \<Rightarrow> string list" where
  "re_split cur [] = [cur]"
| "re_split cur (c # s) =
     (case match_marker (c # s) of
        Some rest \<Rightarrow> cur # re_split [] rest
      | None \<Rightarrow> re_split (cur @ [c]) s)"
  by pat_completeness auto
termination
proof (relation "measure (\<lambda>(cur, s). length s)")
  show "wf (measure (\<lambda>(cur, s). length s))"
    by simp
next
  fix cur :: string and c s rest
  assume "match_marker (c # s) = Some rest"
  then obtain d r' where dw: "dropWhile is_digit s = d # r'"
    and rest: "rest = dropWhile is_space r'"
    by (auto simp: match_marker_def split: list.splits if_splits)
  have "length rest \<le> length r'"
    unfolding rest by (rule length_dropWhile_le)
  also have "length r' < length (dropWhile is_digit s)"
    using dw by simp
  also have "\<dots> \<le> length s"
    by (rule length_dropWhile_le)
  finally show "(([], rest), (cur, c # s)) \<in> measure (\<lambda>(cur, s). length s)"
    by simp
next
  fix cur :: string and c s
  show "((cur @ [c], s), (cur, c # s)) \<in> measure (\<lambda>(cur, s). length s)"
    by simp
qed

text \<open>Lines 249-250: the fragments, stripped, the empty ones left out.\<close>

definition split_answers :: "string \<Rightarrow> string list" where
  "split_answers response_text =
     (let raw_answers = re_split [] response_text
      in map strip (filter (\<lambda>ans. strip ans \<noteq> []) raw_answers))"

text \<open>Lines 249-256: the answers, or the raw text alone when their number is not expected.\<close>

definition parse_answers :: "string \<Rightarrow> nat \<Rightarrow> string list" where
  "parse_answers response_text expected_count =
     (let answers = split_answers response_text
      in if length answers \<noteq> expected_count then [response_text] else answers)"



section \<open>Documents, the vector store and the collaborators\<close>

text \<open>
  A Python dict is an association list with one entry per key, in insertion order.
  \<open>d[k] = v\<close> replaces the value of a key that is present, where it stands, and adds a
  new key at the end.
\<close>

fun dict_set :: "'k \<Rightarrow> 'v \<Rightarrow> ('k \<times> 'v) list \<Rightarrow> ('k \<times> 'v) list" where
  "dict_set k v [] = [(k, v)]"
| "dict_set k v ((k', v') # kvs) =
     (if k' = k then (k, v) # kvs else (k', v') # dict_set k v kvs)"

datatype meta_value = MStr string | MInt int

text \<open>A LangChain \<open>Document\<close>: the text and the metadata dict.\<close>

record document =
  page_content :: string
  metadata :: "(string \<times> meta_value) list"

text \<open>
  Modelled from the spec: the persisted form of a chunk in the vector store, which the
  library call \<open>MongoDBAtlasVectorSearch.from_documents\<close> writes and which is not under
  src/. The spec gives the schema \<open>{text, metadata: {source_document, source_url},
  embedding}\<close>.
\<close>

record stored =
  stored_text :: string
  stored_metadata :: "(string \<times> meta_value) list"
  stored_embedding :: "real list"

datatype exn =
    HTTPException nat string
  | RequestException string
  | LibraryError string

text \<open>What a request does to the outside world, in the order it does it.\<close>

datatype event =
    Connect
  | Download string
  | Load string
  | Embed "string list"
  | StoreWrite "stored list"
  | Search string nat
  | Invoke string

text \<open>
  The collaborators, as the code calls them. Each one that can raise returns a sum, the
  exception on the left. \<open>can_connect\<close> says whether \<open>initialize_mongodb\<close> reaches Atlas
  (it catches every exception and returns a bool). Once the collection handle exists,
  \<open>count_documents\<close> and the write of the store are taken to succeed.
\<close>

record env =
  can_connect :: bool
  http_get :: "string \<Rightarrow> exn + string"
  load_pdf :: "string \<Rightarrow> exn + document list"
  load_docx :: "string \<Rightarrow> exn + document list"
  split_documents :: "document list \<Rightarrow> document list"
  embed :: "string \<Rightarrow> exn + real list"
  similarity_search :: "stored list \<Rightarrow> string \<Rightarrow> nat \<Rightarrow> exn + document list"
  llm_invoke :: "string \<Rightarrow> exn + string"
  str_http_exception :: "nat \<Rightarrow> string \<Rightarrow> string"

text \<open>
  The state: the global \<open>mongo_collection\<close> (\<open>None\<close> until a connection succeeds, then the
  handle on the database and collection names), the documents persisted in the
  collection, and the trace of the calls made so far.
\<close>

record state =
  mongo_collection :: "(string \<times> string) option"
  persisted :: "stored list"
  trace :: "event list"

definition log_event :: "event \<Rightarrow> state \<Rightarrow> state" where
  "log_event e st = st\<lparr>trace := trace st @ [e]\<rparr>"

definition DB_NAME :: string where
  "DB_NAME = ''langchain_db''"

definition COLLECTION_NAME :: string where
  "COLLECTION_NAME = ''documents''"

definition INDEX_NAME :: string where
  "INDEX_NAME = ''vector_index''"

text \<open>Lines 65-89. A failed attempt leaves \<open>mongo_collection\<close> as it was.\<close>

definition initialize_mongodb :: "env \<Rightarrow> state \<Rightarrow> bool \<times> state" where
  "initialize_mongodb env st =
     (let st1 = log_event Connect st
      in if can_connect env
         then (True, st1\<lparr>mongo_collection := Some (DB_NAME, COLLECTION_NAME)\<rparr>)
         else (False, st1))"

text \<open>The object \<open>MongoDBAtlasVectorSearch\<close>: the collection and the index it is bound to.\<close>

record vector_search =
  vs_collection :: "string \<times> string"
  vs_index_name :: string

definition bound_handle :: vector_search where
  "bound_handle = \<lparr>vs_collection = (DB_NAME, COLLECTION_NAME), vs_index_name = INDEX_NAME\<rparr>"


section \<open>The chunker\<close>

text \<open>Line 139.\<close>

definition file_suffix :: "string \<Rightarrow> string" where
  "file_suffix doc_url = (if contains ''.pdf'' (lower doc_url) then ''.pdf'' else ''.docx'')"

text \<open>Line 147: the loader, applied to the bytes that were downloaded.\<close>

definition loader :: "env \<Rightarrow> string \<Rightarrow> string \<Rightarrow> exn + document list" where
  "loader env doc_url =
     (if file_suffix doc_url = ''.pdf'' then load_pdf env else load_docx env)"

text \<open>Line 152.\<close>

definition source_filename :: "string \<Rightarrow> string" where
  "source_filename doc_url = basename (hd (split_on CHR ''?'' doc_url))"

text \<open>Lines 153-155, for one chunk.\<close>

definition stamp :: "string \<Rightarrow> document \<Rightarrow> document" where
  "stamp doc_url chunk =
     chunk\<lparr>metadata :=
       dict_set ''source_url'' (MStr doc_url)
         (dict_set ''source_document'' (MStr (source_filename doc_url)) (metadata chunk))\<rparr>"

text \<open>
  Lines 158-160: a \<open>RequestException\<close> raised anywhere in the \<open>try\<close> becomes the HTTP
  error 400; any other exception passes.
\<close>

definition on_request_exception :: "exn \<Rightarrow> exn" where
  "on_request_exception e =
     (case e of
        RequestException msg \<Rightarrow> HTTPException 400 (''Failed to download document: '' @ msg)
      | _ \<Rightarrow> e)"

text \<open>Lines 135-163. The temporary file and its removal are not modelled.\<close>

definition get_document_chunks :: "env \<Rightarrow> state \<Rightarrow> string \<Rightarrow> (exn + document list) \<times> state" where
  "get_document_chunks env st doc_url =
     (let st1 = log_event (Download doc_url) st
      in case http_get env doc_url of
           Inl e \<Rightarrow> (Inl (on_request_exception e), st1)
         | Inr body \<Rightarrow>
             (let st2 = log_event (Load (file_suffix doc_url)) st1
              in case loader env doc_url body of
                   Inl e \<Rightarrow> (Inl (on_request_exception e), st2)
                 | Inr documents \<Rightarrow>
                     (let doc_chunks = split_documents env documents
                      in (Inr (map (stamp doc_url) doc_chunks), st2))))"


section \<open>The ingestion gate\<close>

text \<open>\<open>count_documents({"metadata.source_url": doc_url}, limit=n)\<close>.\<close>

definition has_source_url :: "string \<Rightarrow> stored \<Rightarrow> bool" where
  "has_source_url doc_url d = (map_of (stored_metadata d) ''source_url'' = Some (MStr doc_url))"

definition count_documents :: "stored list \<Rightarrow> string \<Rightarrow> nat \<Rightarrow> nat" where
  "count_documents coll doc_url limit = min limit (length (filter (has_source_url doc_url) coll))"

fun embed_all :: "(string \<Rightarrow> exn + real list) \<Rightarrow> string list \<Rightarrow> exn + real list list" where
  "embed_all f [] = Inr []"
| "embed_all f (t # ts) =
     (case f t of
        Inl e \<Rightarrow> Inl e
      | Inr v \<Rightarrow> (case embed_all f ts of Inl e \<Rightarrow> Inl e | Inr vs \<Rightarrow> Inr (v # vs)))"

definition to_stored :: "document \<times> real list \<Rightarrow> stored" where
  "to_stored cv =
     \<lparr>stored_text = page_content (fst cv), stored_metadata = metadata (fst cv),
      stored_embedding = snd cv\<rparr>"

text \<open>
  Modelled from the spec: \<open>MongoDBAtlasVectorSearch.from_documents\<close> (lines 184-189), a
  library call that is not under src/. The spec has it request an embedding for every chunk
  and persist the pairs of chunk and embedding as one batch write.
\<close>

definition from_documents :: "env \<Rightarrow> state \<Rightarrow> document list \<Rightarrow> (exn + vector_search) \<times> state" where
  "from_documents env st doc_chunks =
     (let texts = map page_content doc_chunks;
          st1 = log_event (Embed texts) st
      in case embed_all (embed env) texts of
           Inl e \<Rightarrow> (Inl e, st1)
         | Inr vectors \<Rightarrow>
             (let docs = map to_stored (zip doc_chunks vectors);
                  st2 = log_event (StoreWrite docs) (st1\<lparr>persisted := persisted st1 @ docs\<rparr>)
              in (Inr bound_handle, st2)))"

text \<open>Lines 165-198.\<close>

definition get_mongo_vector_search :: "env \<Rightarrow> state \<Rightarrow> string \<Rightarrow> (exn + vector_search) \<times> state" where
  "get_mongo_vector_search env st doc_url =
     (case (if mongo_collection st = None then initialize_mongodb env st else (True, st)) of
        (ok, st1) \<Rightarrow>
          if \<not> ok then (Inl (HTTPException 500 ''MongoDB connection failed''), st1)
          else if count_documents (persisted st1) doc_url 1 = 0 then
            (case get_document_chunks env st1 doc_url of
               (Inl e, st2) \<Rightarrow> (Inl e, st2)
             | (Inr doc_chunks, st2) \<Rightarrow>
                 if doc_chunks = []
                 then (Inl (HTTPException 400 ''Document could not be processed.''), st2)
                 else from_documents env st2 doc_chunks)
          else (Inr bound_handle, st1))"


section \<open>The request\<close>

record QueryRequest =
  documents :: string
  questions :: "string list"

record QueryResponse =
  answers :: "string list"

text \<open>Lines 212-213: the documents of one question enter the dict, keyed by their text.\<close>

fun add_docs :: "document list \<Rightarrow> (string \<times> document) list \<Rightarrow> (string \<times> document) list" where
  "add_docs [] all_source_docs = all_source_docs"
| "add_docs (doc # docs) all_source_docs =
     add_docs docs (dict_set (page_content doc) doc all_source_docs)"

text \<open>
  Lines 210-213: one search per question, with \<open>k = 5\<close>, over the collection. A search that
  raises ends the loop.
\<close>

fun retrieve_all ::
  "env \<Rightarrow> state \<Rightarrow> string list \<Rightarrow> (string \<times> document) list \<Rightarrow>
     (exn + (string \<times> document) list) \<times> state" where
  "retrieve_all env st [] all_source_docs = (Inr all_source_docs, st)"
| "retrieve_all env st (question # qs) all_source_docs =
     (let st1 = log_event (Search question 5) st
      in case similarity_search env (persisted st) question 5 of
           Inl e \<Rightarrow> (Inl e, st1)
         | Inr retrieved_docs \<Rightarrow> retrieve_all env st1 qs (add_docs retrieved_docs all_source_docs))"

definition sentinel :: string where
  "sentinel = ''The provided context does not contain sufficient information to answer this question.''"

text \<open>Line 219.\<close>

definition combined_context :: "(string \<times> document) list \<Rightarrow> string" where
  "combined_context all_source_docs =
     join ''\<newline>\<newline>---\<newline>\<newline>'' (map (\<lambda>kv. page_content (snd kv)) all_source_docs)"

text \<open>Line 220.\<close>

definition formatted_questions :: "string list \<Rightarrow> string" where
  "formatted_questions qs =
     join ''\<newline>'' (map (\<lambda>iq. str_nat (fst iq + 1) @ ''. '' @ snd iq) (enumerate 0 qs))"

text \<open>Lines 222-243: the text before the context, between it and the questions, and after.\<close>

definition prompt_head :: string where
  "prompt_head =
     ''\<newline>'' @
     ''        You are an expert AI assistant for analyzing legal and policy documents. Your goal is to answer a list of questions based *exclusively* on the provided context.\<newline>'' @
     ''\<newline>'' @
     ''        **Context from the document:**\<newline>'' @
     ''        ---\<newline>'' @
     ''        ''"

definition prompt_middle :: string where
  "prompt_middle =
     ''\<newline>'' @
     ''        ---\<newline>'' @
     ''\<newline>'' @
     ''        **Questions:**\<newline>'' @
     ''        ---\<newline>'' @
     ''        ''"

definition prompt_tail :: string where
  "prompt_tail =
     ''\<newline>'' @
     ''        ---\<newline>'' @
     ''\<newline>'' @
     ''        **Instructions:**\<newline>'' @
     ''        1.  Carefully read the entire context to understand the document's content.\<newline>'' @
     ''        2.  Answer each question from the list one by one.\<newline>'' @
     ''        3.  **Your response MUST be a numbered list**, where each number corresponds to the question number.\<newline>'' @
     ''        4.  Each answer must be a clear, concise, and objective statement derived only from the provided context.\<newline>'' @
     ''        5.  Write full and formal sentence instead of 2-3 words.\<newline>'' @
     ''        5.  **CRITICAL:** If the information to answer a specific question is not in the context, you MUST write the exact phrase: \"The provided context does not contain sufficient information to answer this question.\" for that corresponding number.\<newline>'' @
     ''        6.  Do not add any preamble or closing remarks. Your output should begin immediately with \"1.\"\<newline>'' @
     ''        ''"

definition final_prompt_str :: "(string \<times> document) list \<Rightarrow> string list \<Rightarrow> string" where
  "final_prompt_str all_source_docs qs =
     prompt_head @ combined_context all_source_docs @ prompt_middle @
     formatted_questions qs @ prompt_tail"

text \<open>Lines 204-256, the body of the \<open>try\<close>.\<close>

definition run_body :: "env \<Rightarrow> state \<Rightarrow> QueryRequest \<Rightarrow> (exn + QueryResponse) \<times> state" where
  "run_body env st request =
     (case get_mongo_vector_search env st (documents request) of
        (Inl e, st1) \<Rightarrow> (Inl e, st1)
      | (Inr vector_search_instance, st1) \<Rightarrow>
          (case retrieve_all env st1 (questions request) [] of
             (Inl e, st2) \<Rightarrow> (Inl e, st2)
           | (Inr all_source_docs, st2) \<Rightarrow>
               if all_source_docs = []
               then (Inr \<lparr>answers = replicate (length (questions request)) sentinel\<rparr>, st2)
               else
                 (let prompt = final_prompt_str all_source_docs (questions request);
                      st3 = log_event (Invoke prompt) st2
                  in case llm_invoke env prompt of
                       Inl e \<Rightarrow> (Inl e, st3)
                     | Inr response_text \<Rightarrow>
                         (Inr \<lparr>answers =
                                 parse_answers response_text (length (questions request))\<rparr>,
                          st3))))"

text \<open>\<open>str(e)\<close> of line 259.\<close>

definition str_exn :: "env \<Rightarrow> exn \<Rightarrow> string" where
  "str_exn env e =
     (case e of
        HTTPException status_code detail \<Rightarrow> str_http_exception env status_code detail
      | RequestException msg \<Rightarrow> msg
      | LibraryError msg \<Rightarrow> msg)"

text \<open>
  Lines 201-259: every exception of the body, the HTTP errors of the gate among them,
  leaves as the HTTP error 500.
\<close>

definition run_submission :: "env \<Rightarrow> state \<Rightarrow> QueryRequest \<Rightarrow> (exn + QueryResponse) \<times> state" where
  "run_submission env st request =
     (case run_body env st request of
        (Inl e, st1) \<Rightarrow>
          (Inl (HTTPException 500 (''An internal error occurred: '' @ str_exn env e)), st1)
      | (Inr response, st1) \<Rightarrow> (Inr response, st1))"

text \<open>The prompts sent to the generative model, and the writes to the store, in a trace.\<close>

fun llm_calls :: "event list \<Rightarrow> string list" where
  "llm_calls [] = []"
| "llm_calls (Invoke p # es) = p # llm_calls es"
| "llm_calls (e # es) = llm_calls es"

fun store_writes :: "event list \<Rightarrow> stored list list" where
  "store_writes [] = []"
| "store_writes (StoreWrite ds # es) = ds # store_writes es"
| "store_writes (e # es) = store_writes es"


text \<open>
  The order the spec gives the evidence set: every element once, at the place of its first
  occurrence.
\<close>

fun first_seen :: "'a list \<Rightarrow> 'a list" where
  "first_seen [] = []"
| "first_seen (x # xs) = x # filter (\<lambda>y. y \<noteq> x) (first_seen xs)"


section \<open>Example collaborators, states and requests\<close>

definition chunk_a :: document where
  "chunk_a = \<lparr>page_content = ''alpha'', metadata = []\<rparr>"

definition chunk_b :: document where
  "chunk_b = \<lparr>page_content = ''beta'', metadata = []\<rparr>"

definition chunk_c :: document where
  "chunk_c = \<lparr>page_content = ''gamma'', metadata = []\<rparr>"

definition example_env :: env where
  "example_env =
     \<lparr>can_connect = True,
      http_get = (\<lambda>u. Inr ''bytes''),
      load_pdf = (\<lambda>b. Inr [\<lparr>page_content = ''alpha beta'', metadata = [(''page'', MInt 0)]\<rparr>]),
      load_docx = (\<lambda>b. Inr [\<lparr>page_content = ''alpha beta'', metadata = []\<rparr>]),
      split_documents = (\<lambda>ds. ds),
      embed = (\<lambda>t. Inr [0, 1]),
      similarity_search =
        (\<lambda>coll q k. Inr (if q = ''q1'' then [chunk_a, chunk_b]
                        else if q = ''q2'' then [chunk_b, chunk_c] else [])),
      llm_invoke = (\<lambda>p. Inr ''1. A\<newline>2. B''),
      str_http_exception = (\<lambda>c d. d)\<rparr>"

definition example_url :: string where
  "example_url = ''http://host/policy.pdf?v=2''"

definition st_indexed :: state where
  "st_indexed =
     \<lparr>mongo_collection = Some (DB_NAME, COLLECTION_NAME),
      persisted =
        [\<lparr>stored_text = ''alpha'',
          stored_metadata =
            [(''source_document'', MStr ''policy.pdf''), (''source_url'', MStr example_url)],
          stored_embedding = [0, 1]\<rparr>],
      trace = []\<rparr>"

definition st_fresh :: state where
  "st_fresh = \<lparr>mongo_collection = None, persisted = [], trace = []\<rparr>"

definition example_request :: QueryRequest where
  "example_request = \<lparr>documents = example_url, questions = [''q1'', ''q2'']\<rparr>"


definition env_no_evidence :: env where
  "env_no_evidence = example_env\<lparr>similarity_search := \<lambda>coll q k. Inr []\<rparr>"


definition env_blank :: env where
  "env_blank = example_env\<lparr>load_pdf := \<lambda>b. Inr []\<rparr>"


section \<open>Dicts and first occurrences\<close>

lemma map_of_dict_set_same: "map_of (dict_set k v d) k = Some v"
  by (induction d) auto

lemma map_of_dict_set_other: "k' \<noteq> k \<Longrightarrow> map_of (dict_set k v d) k' = map_of d k'"
  by (induction d) auto

lemma keys_dict_set:
  "map fst (dict_set k v d) = (if k \<in> set (map fst d) then map fst d else map fst d @ [k])"
  by (induction d) force+

lemma set_first_seen: "set (first_seen xs) = set xs"
  by (induction xs) auto

lemma distinct_first_seen: "distinct (first_seen xs)"
  by (induction xs) auto

text \<open>An element seen again neither moves nor duplicates; a new one goes to the end.\<close>

lemma first_seen_snoc:
  "first_seen (xs @ [x]) = (if x \<in> set xs then first_seen xs else first_seen xs @ [x])"
  by (induction xs) (auto simp: set_first_seen)

lemma first_seen_distinct: "distinct xs \<Longrightarrow> first_seen xs = xs"
  by (induction xs) (auto simp: set_first_seen filter_id_conv)

lemma add_docs_snoc: "add_docs (docs @ [d]) acc = dict_set (page_content d) d (add_docs docs acc)"
  by (induction docs arbitrary: acc) auto

lemma keys_add_docs:
  assumes "distinct (map fst acc)"
  shows "map fst (add_docs docs acc) = first_seen (map fst acc @ map page_content docs)"
  using assms
proof (induction docs rule: rev_induct)
  case Nil
  then show ?case by (simp add: first_seen_distinct)
next
  case (snoc d docs)
  then show ?case
    by (simp add: add_docs_snoc keys_dict_set set_first_seen first_seen_snoc flip: append_assoc)
qed

lemma split_on_nonempty: "split_on sep s \<noteq> []"
  by (induction s) (auto split: list.splits)

lemma hd_split_on: "hd (split_on sep s) = takeWhile (\<lambda>c. c \<noteq> sep) s"
  by (induction s) (auto simp: split_on_nonempty split: list.splits)

lemma llm_calls_append: "llm_calls (xs @ ys) = llm_calls xs @ llm_calls ys"
  by (induction xs rule: llm_calls.induct) auto


section \<open>The gate and the retrieval loop\<close>

lemma persisted_log_event [simp]: "persisted (log_event e st) = persisted st"
  by (simp add: log_event_def)

lemma mongo_collection_log_event [simp]: "mongo_collection (log_event e st) = mongo_collection st"
  by (simp add: log_event_def)

lemma trace_log_event [simp]: "trace (log_event e st) = trace st @ [e]"
  by (simp add: log_event_def)

lemma gate_indexed:
  assumes "count_documents (persisted st) doc_url 1 \<noteq> 0"
  shows "get_mongo_vector_search env st doc_url =
    (if mongo_collection st \<noteq> None then (Inr bound_handle, st)
     else if can_connect env
       then (Inr bound_handle, (log_event Connect st)\<lparr>mongo_collection := Some (DB_NAME, COLLECTION_NAME)\<rparr>)
       else (Inl (HTTPException 500 ''MongoDB connection failed''), log_event Connect st))"
  using assms by (auto simp: get_mongo_vector_search_def initialize_mongodb_def bound_handle_def Let_def)

lemma chunks_trace:
  "\<exists>es. trace (snd (get_document_chunks env st doc_url)) = trace st @ es \<and> llm_calls es = []"
  by (simp add: get_document_chunks_def Let_def split: sum.splits)

lemma chunks_persisted: "persisted (snd (get_document_chunks env st doc_url)) = persisted st"
  by (simp add: get_document_chunks_def Let_def split: sum.splits)

lemma from_documents_trace:
  "\<exists>es. trace (snd (from_documents env st cs)) = trace st @ es \<and> llm_calls es = []"
  by (simp add: from_documents_def Let_def split: sum.splits)

lemma gate_trace:
  "\<exists>es. trace (snd (get_mongo_vector_search env st doc_url)) = trace st @ es \<and> llm_calls es = []"
proof -
  obtain ok st1 where init: "(if mongo_collection st = None then initialize_mongodb env st else (True, st)) = (ok, st1)"
    by (cases "(if mongo_collection st = None then initialize_mongodb env st else (True, st))")
  then obtain es1 where es1: "trace st1 = trace st @ es1" "llm_calls es1 = []"
    by (auto simp: initialize_mongodb_def Let_def split: if_splits)
  obtain r st2 where ch: "get_document_chunks env st1 doc_url = (r, st2)"
    by (cases "get_document_chunks env st1 doc_url")
  obtain es2 where es2: "trace st2 = trace st1 @ es2" "llm_calls es2 = []"
    using chunks_trace [of env st1 doc_url] ch by auto
  show ?thesis
  proof (cases r)
    case (Inl e)
    then show ?thesis
      using init es1 ch es2
      by (auto simp: get_mongo_vector_search_def llm_calls_append)
  next
    case (Inr cs)
    obtain es3 where es3: "trace (snd (from_documents env st2 cs)) = trace st2 @ es3" "llm_calls es3 = []"
      using from_documents_trace by blast
    with Inr show ?thesis
      using init es1 ch es2
      by (auto simp: get_mongo_vector_search_def llm_calls_append)
  qed
qed

lemma retrieve_trace:
  "\<exists>es. trace (snd (retrieve_all env st qs acc)) = trace st @ es \<and> llm_calls es = []"
proof (induction qs arbitrary: st acc)
  case Nil
  show ?case by simp
next
  case (Cons q qs)
  show ?case
  proof (cases "similarity_search env (persisted st) q 5")
    case (Inl e)
    then show ?thesis by (simp add: Let_def)
  next
    case (Inr docs)
    obtain es where "trace (snd (retrieve_all env (log_event (Search q 5) st) qs (add_docs docs acc)))
       = trace (log_event (Search q 5) st) @ es" "llm_calls es = []"
      using Cons.IH by blast
    with Inr show ?thesis by (simp add: Let_def llm_calls_append)
  qed
qed

lemma add_docs_append: "add_docs (xs @ ys) acc = add_docs ys (add_docs xs acc)"
  by (induction xs arbitrary: acc) auto

lemma retrieve_success:
  assumes "\<forall>q\<in>set qs. similarity_search env (persisted st) q 5 = Inr (results q)"
  shows "fst (retrieve_all env st qs acc) = Inr (add_docs (concat (map results qs)) acc)"
  using assms by (induction qs arbitrary: st acc) (simp_all add: Let_def add_docs_append)

lemma retrieve_persisted: "persisted (snd (retrieve_all env st qs acc)) = persisted st"
  by (induction qs arbitrary: st acc) (simp_all add: Let_def split: sum.splits)

lemma dict_set_values:
  assumes "\<forall>kv\<in>set d. page_content (snd kv) = fst kv"
  shows "\<forall>kv\<in>set (dict_set (page_content doc) doc d). page_content (snd kv) = fst kv"
  using assms by (induction d) (force split: if_splits)+

lemma add_docs_values:
  assumes "\<forall>kv\<in>set acc. page_content (snd kv) = fst kv"
  shows "\<forall>kv\<in>set (add_docs docs acc). page_content (snd kv) = fst kv"
  using assms
proof (induction docs arbitrary: acc)
  case Nil
  then show ?case by simp
next
  case (Cons d docs)
  show ?case
    using Cons.IH [OF dict_set_values [OF Cons.prems]] by simp
qed

lemma add_docs_texts: "map (\<lambda>kv. page_content (snd kv)) (add_docs docs []) = map fst (add_docs docs [])"
  using add_docs_values [of "[]" docs] by simp

lemma dict_set_nonempty: "dict_set k v d \<noteq> []"
  by (cases d) (auto split: if_splits)

lemma add_docs_nonempty: "acc \<noteq> [] \<Longrightarrow> add_docs docs acc \<noteq> []"
  by (induction docs arbitrary: acc) (simp_all add: dict_set_nonempty)

lemma add_docs_empty: "add_docs docs [] = [] \<longleftrightarrow> docs = []"
  by (cases docs) (simp_all add: add_docs_nonempty dict_set_nonempty)


section \<open>The paths of a request\<close>

lemma run_body_cases:
  obtains
    (gate_fails) e st1 where
      "get_mongo_vector_search env st (documents request) = (Inl e, st1)"
      "run_body env st request = (Inl e, st1)"
  | (search_fails) vs st1 e st2 where
      "get_mongo_vector_search env st (documents request) = (Inr vs, st1)"
      "retrieve_all env st1 (questions request) [] = (Inl e, st2)"
      "run_body env st request = (Inl e, st2)"
  | (no_evidence) vs st1 st2 where
      "get_mongo_vector_search env st (documents request) = (Inr vs, st1)"
      "retrieve_all env st1 (questions request) [] = (Inr [], st2)"
      "run_body env st request =
         (Inr \<lparr>answers = replicate (length (questions request)) sentinel\<rparr>, st2)"
  | (llm_fails) vs st1 ev st2 e where
      "get_mongo_vector_search env st (documents request) = (Inr vs, st1)"
      "retrieve_all env st1 (questions request) [] = (Inr ev, st2)"
      "ev \<noteq> []"
      "llm_invoke env (final_prompt_str ev (questions request)) = Inl e"
      "run_body env st request =
         (Inl e, log_event (Invoke (final_prompt_str ev (questions request))) st2)"
  | (answered) vs st1 ev st2 response_text where
      "get_mongo_vector_search env st (documents request) = (Inr vs, st1)"
      "retrieve_all env st1 (questions request) [] = (Inr ev, st2)"
      "ev \<noteq> []"
      "llm_invoke env (final_prompt_str ev (questions request)) = Inr response_text"
      "run_body env st request =
         (Inr \<lparr>answers = parse_answers response_text (length (questions request))\<rparr>,
          log_event (Invoke (final_prompt_str ev (questions request))) st2)"
proof -
  obtain r1 st1 where g: "get_mongo_vector_search env st (documents request) = (r1, st1)"
    by (cases "get_mongo_vector_search env st (documents request)")
  show ?thesis
  proof (cases r1)
    case (Inl e)
    with g show ?thesis by (intro gate_fails [of e st1]) (simp_all add: run_body_def)
  next
    case (Inr vs)
    note vs = this
    obtain r2 st2 where r: "retrieve_all env st1 (questions request) [] = (r2, st2)"
      by (cases "retrieve_all env st1 (questions request) []")
    show ?thesis
    proof (cases r2)
      case (Inl e)
      with g vs r show ?thesis by (intro search_fails [of vs st1 e st2]) (simp_all add: run_body_def)
    next
      case (Inr ev)
      note ev = this
      show ?thesis
      proof (cases "ev = []")
        case True
        with g vs r ev show ?thesis
          by (intro no_evidence [of vs st1 st2]) (simp_all add: run_body_def)
      next
        case False
        show ?thesis
        proof (cases "llm_invoke env (final_prompt_str ev (questions request))")
          case (Inl e)
          with g vs r ev False show ?thesis
            by (intro llm_fails [of vs st1 ev st2 e]) (simp_all add: run_body_def Let_def)
        next
          case (Inr out)
          with g vs r ev False show ?thesis
            by (intro answered [of vs st1 ev st2 out]) (simp_all add: run_body_def Let_def)
        qed
      qed
    qed
  qed
qed

lemma fst_run_submission:
  "fst (run_submission env st request) =
     (case fst (run_body env st request) of
        Inl e \<Rightarrow> Inl (HTTPException 500 (''An internal error occurred: '' @ str_exn env e))
      | Inr response \<Rightarrow> Inr response)"
  by (simp add: run_submission_def split: prod.splits sum.splits)

lemma snd_run_submission: "snd (run_submission env st request) = snd (run_body env st request)"
  by (simp add: run_submission_def split: prod.splits sum.splits)

lemma length_parse_answers:
  "length (parse_answers out n) = n \<or> length (parse_answers out n) = 1"
  by (simp add: parse_answers_def Let_def)

lemma run_body_llm_calls:
  "\<exists>es. trace (snd (run_body env st request)) = trace st @ es \<and>
     llm_calls es =
       (case get_mongo_vector_search env st (documents request) of
          (Inl e, st1) \<Rightarrow> []
        | (Inr vs, st1) \<Rightarrow>
            (case retrieve_all env st1 (questions request) [] of
               (Inl e, st2) \<Rightarrow> []
             | (Inr ev, st2) \<Rightarrow>
                 if ev = [] then [] else [final_prompt_str ev (questions request)]))"
proof -
  obtain es1 where es1:
    "trace (snd (get_mongo_vector_search env st (documents request))) = trace st @ es1"
    "llm_calls es1 = []"
    using gate_trace by blast
  have es2: "\<exists>es2. trace (snd (retrieve_all env st1 (questions request) [])) = trace st1 @ es2 \<and>
     llm_calls es2 = []" for st1
    by (rule retrieve_trace)
  show ?thesis
  proof (cases rule: run_body_cases [of env st request])
    case (gate_fails e st1)
    with es1 show ?thesis by auto
  next
    case (search_fails vs st1 e st2)
    with es1 es2 [of st1] show ?thesis by (auto simp: llm_calls_append)
  next
    case (no_evidence vs st1 st2)
    with es1 es2 [of st1] show ?thesis by (auto simp: llm_calls_append)
  next
    case (llm_fails vs st1 ev st2 e)
    with es1 es2 [of st1] show ?thesis
      by (auto simp: llm_calls_append)
  next
    case (answered vs st1 ev st2 response_text)
    with es1 es2 [of st1] show ?thesis
      by (auto simp: llm_calls_append)
  qed
qed

lemma concat_map_Nil: "concat (map (\<lambda>q. []) qs) = []"
  by (induction qs) simp_all


section \<open>Substrings and the prompt\<close>

lemma contains_intro: "contains pat (pre @ pat @ post)"
proof (induction pre)
  case Nil
  show ?case
  proof (cases "pat @ post")
    case Nil
    then show ?thesis by simp
  next
    case (Cons a list)
    have "take (length pat) (pat @ post) = pat" by simp
    then have "starts_with pat (a # list)"
      unfolding starts_with_def Cons .
    then show ?thesis using Cons by simp
  qed
next
  case (Cons c pre)
  then show ?case by simp
qed

lemma contains_elim:
  assumes "contains pat s"
  shows "\<exists>pre post. s = pre @ pat @ post"
  using assms
proof (induction s)
  case Nil
  then show ?case by simp
next
  case (Cons c s)
  show ?case
  proof (cases "starts_with pat (c # s)")
    case True
    then have "c # s = [] @ pat @ drop (length pat) (c # s)"
      unfolding starts_with_def by (metis append_Nil append_take_drop_id)
    then show ?thesis by blast
  next
    case False
    with Cons.prems have "contains pat s" by simp
    then obtain pre post where "s = pre @ pat @ post"
      using Cons.IH by blast
    then have "c # s = (c # pre) @ pat @ post" by simp
    then show ?thesis by blast
  qed
qed

lemma join_member:
  assumes "x \<in> set xs"
  shows "\<exists>pre post. join sep xs = pre @ x @ post"
  using assms
proof (induction sep xs rule: join.induct)
  case (1 sep)
  then show ?case by simp
next
  case (2 sep y)
  then have "join sep [y] = [] @ x @ []" by simp
  then show ?case by blast
next
  case (3 sep y z zs)
  show ?case
  proof (cases "x = y")
    case True
    then have "join sep (y # z # zs) = [] @ x @ (sep @ join sep (z # zs))" by simp
    then show ?thesis by blast
  next
    case False
    with 3 obtain pre post where "join sep (z # zs) = pre @ x @ post" by auto
    then have "join sep (y # z # zs) = (y @ sep @ pre) @ x @ post" by simp
    then show ?thesis by blast
  qed
qed

lemma prompt_holds_question:
  assumes "i < length qs"
  shows "contains (str_nat (i + 1) @ ''. '' @ qs ! i) (final_prompt_str ev qs)"
proof -
  define f :: "nat \<times> string \<Rightarrow> string" where "f = (\<lambda>iq. str_nat (fst iq + 1) @ ''. '' @ snd iq)"
  define line where "line = str_nat (i + 1) @ ''. '' @ qs ! i"
  have len: "i < length (map f (enumerate 0 qs))"
    using assms by simp
  have "map f (enumerate 0 qs) ! i = line"
    using assms by (simp add: nth_enumerate_eq f_def line_def)
  moreover have "map f (enumerate 0 qs) ! i \<in> set (map f (enumerate 0 qs))"
    using len by (rule nth_mem)
  ultimately have "line \<in> set (map f (enumerate 0 qs))"
    by simp
  then obtain pre post where "join ''\<newline>'' (map f (enumerate 0 qs)) = pre @ line @ post"
    using join_member by blast
  then have "formatted_questions qs = pre @ line @ post"
    by (simp add: formatted_questions_def f_def)
  then have "final_prompt_str ev qs =
      (prompt_head @ combined_context ev @ prompt_middle @ pre) @ line @ (post @ prompt_tail)"
    by (simp add: final_prompt_str_def)
  then have "contains line (final_prompt_str ev qs)"
    by (simp only: contains_intro)
  then show ?thesis
    by (simp only: line_def)
qed


section \<open>Lower case and the test of the suffix\<close>

lemma of_char_lower_char:
  "(of_char (lower_char c) :: nat) =
     (if (65 \<le> (of_char c :: nat) \<and> (of_char c :: nat) \<le> 90) \<or>
         (192 \<le> (of_char c :: nat) \<and> (of_char c :: nat) \<le> 222 \<and> (of_char c :: nat) \<noteq> 215)
      then of_char c + 32 else of_char c)"
  by (simp add: lower_char_def Let_def)

lemma lower_arith:
  fixes n :: nat
  assumes "k < 65 \<or> (90 < k \<and> k < 192) \<or> k = 215 \<or> 222 < k"
  shows "(if (65 \<le> n \<and> n \<le> 90) \<or> (192 \<le> n \<and> n \<le> 222 \<and> n \<noteq> 215) then n + 32 else n) = k
     \<longleftrightarrow> n = k \<or> (n + 32 = k \<and> ((65 \<le> n \<and> n \<le> 90) \<or> (192 \<le> n \<and> n \<le> 222 \<and> n \<noteq> 215)))"
  using assms by (cases "(65 \<le> n \<and> n \<le> 90) \<or> (192 \<le> n \<and> n \<le> 222 \<and> n \<noteq> 215)") (simp_all, arith+)


lemma lower_char_letter:
  assumes d: "(of_char d :: nat) = k" and u: "(of_char u :: nat) = k - 32"
    and k: "97 \<le> k" "k \<le> 122"
  shows "lower_char c = d \<longleftrightarrow> c = d \<or> c = u"
proof -
  define n where "n = (of_char c :: nat)"
  have "lower_char c = d \<longleftrightarrow> (of_char (lower_char c) :: nat) = of_char d"
    by simp
  also have "\<dots> \<longleftrightarrow> (of_char (lower_char c) :: nat) = k"
    by (simp only: d)
  also have "\<dots> \<longleftrightarrow>
      n = k \<or> (n + 32 = k \<and> ((65 \<le> n \<and> n \<le> 90) \<or> (192 \<le> n \<and> n \<le> 222 \<and> n \<noteq> 215)))"
    unfolding of_char_lower_char n_def [symmetric] using k by (intro lower_arith) arith
  also have "\<dots> \<longleftrightarrow> n = k \<or> n = k - 32"
    using k by arith
  also have "\<dots> \<longleftrightarrow> (of_char c :: nat) = of_char d \<or> (of_char c :: nat) = of_char u"
    by (simp only: n_def d u)
  also have "\<dots> \<longleftrightarrow> c = d \<or> c = u"
    by simp
  finally show ?thesis .
qed

lemma lower_char_dot: "lower_char c = CHR ''.'' \<longleftrightarrow> c = CHR ''.''"
proof -
  define n where "n = (of_char c :: nat)"
  have "lower_char c = CHR ''.'' \<longleftrightarrow> (of_char (lower_char c) :: nat) = of_char CHR ''.''"
    by (simp only: of_char_eq_iff)
  also have "\<dots> \<longleftrightarrow> (of_char (lower_char c) :: nat) = 46"
    by simp
  also have "\<dots> \<longleftrightarrow>
      n = 46 \<or> (n + 32 = 46 \<and> ((65 \<le> n \<and> n \<le> 90) \<or> (192 \<le> n \<and> n \<le> 222 \<and> n \<noteq> 215)))"
    unfolding of_char_lower_char n_def [symmetric] by (intro lower_arith) arith
  also have "\<dots> \<longleftrightarrow> n = 46"
    by arith
  also have "\<dots> \<longleftrightarrow> (of_char c :: nat) = of_char CHR ''.''"
    by (simp add: n_def)
  also have "\<dots> \<longleftrightarrow> c = CHR ''.''"
    by (simp only: of_char_eq_iff)
  finally show ?thesis .
qed

lemma lower_char_p: "lower_char c = CHR ''p'' \<longleftrightarrow> c = CHR ''p'' \<or> c = CHR ''P''"
  by (rule lower_char_letter [where k = 112]) simp_all

lemma lower_char_d: "lower_char c = CHR ''d'' \<longleftrightarrow> c = CHR ''d'' \<or> c = CHR ''D''"
  by (rule lower_char_letter [where k = 100]) simp_all

lemma lower_char_f: "lower_char c = CHR ''f'' \<longleftrightarrow> c = CHR ''f'' \<or> c = CHR ''F''"
  by (rule lower_char_letter [where k = 102]) simp_all


lemma map_eq_four:
  "map f xs = [p, q, r, s] \<longleftrightarrow>
     (\<exists>x a b c. xs = [x, a, b, c] \<and> f x = p \<and> f a = q \<and> f b = r \<and> f c = s)"
  by (simp add: map_eq_Cons_conv) blast


lemma lower_pdf_iff:
  "map lower_char mid = ''.pdf'' \<longleftrightarrow>
     (\<exists>a b c. mid = [CHR ''.'', a, b, c] \<and> a \<in> {CHR ''p'', CHR ''P''} \<and>
        b \<in> {CHR ''d'', CHR ''D''} \<and> c \<in> {CHR ''f'', CHR ''F''})"
proof -
  have "map lower_char mid = ''.pdf'' \<longleftrightarrow>
      (\<exists>x a b c. mid = [x, a, b, c] \<and> lower_char x = CHR ''.'' \<and> lower_char a = CHR ''p'' \<and>
         lower_char b = CHR ''d'' \<and> lower_char c = CHR ''f'')"
    by (rule map_eq_four)
  also have "\<dots> \<longleftrightarrow>
      (\<exists>x a b c. mid = [x, a, b, c] \<and> x = CHR ''.'' \<and> (a = CHR ''p'' \<or> a = CHR ''P'') \<and>
         (b = CHR ''d'' \<or> b = CHR ''D'') \<and> (c = CHR ''f'' \<or> c = CHR ''F''))"
    by (simp only: lower_char_dot lower_char_p lower_char_d lower_char_f)
  also have "\<dots> \<longleftrightarrow>
      (\<exists>a b c. mid = [CHR ''.'', a, b, c] \<and> a \<in> {CHR ''p'', CHR ''P''} \<and>
        b \<in> {CHR ''d'', CHR ''D''} \<and> c \<in> {CHR ''f'', CHR ''F''})"
    by (simp only: insert_iff empty_iff) blast
  finally show ?thesis .
qed

lemma contains_iff: "contains pat s \<longleftrightarrow> (\<exists>pre post. s = pre @ pat @ post)"
  using contains_intro contains_elim by blast

lemma map_eq_three_parts:
  assumes "map f xs = p @ m @ q"
  shows "\<exists>pre mid post. xs = pre @ mid @ post \<and> map f mid = m"
proof -
  define pre where "pre = take (length p) xs"
  define mid where "mid = take (length m) (drop (length p) xs)"
  define post where "post = drop (length m) (drop (length p) xs)"
  have "xs = pre @ mid @ post"
    by (simp only: pre_def mid_def post_def append_take_drop_id)
  moreover have "map f mid = take (length m) (drop (length p) (map f xs))"
    by (simp add: mid_def take_map drop_map)
  then have "map f mid = m"
    by (simp add: assms)
  ultimately show ?thesis
    by blast
qed


lemma file_suffix_pdf_iff:
  "contains ''.pdf'' (lower doc_url) \<longleftrightarrow>
     (\<exists>pre a b c post. doc_url = pre @ [CHR ''.'', a, b, c] @ post \<and>
        a \<in> {CHR ''p'', CHR ''P''} \<and> b \<in> {CHR ''d'', CHR ''D''} \<and> c \<in> {CHR ''f'', CHR ''F''})"
proof
  assume c: "contains ''.pdf'' (lower doc_url)"
  from contains_elim [OF c] obtain p q where "lower doc_url = p @ ''.pdf'' @ q"
    by (elim exE)
  then have m: "map lower_char doc_url = p @ ''.pdf'' @ q"
    by (simp only: lower_def)
  from map_eq_three_parts [OF m] obtain pre mid post
    where parts: "doc_url = pre @ mid @ post" "map lower_char mid = ''.pdf''"
    by (elim exE conjE)
  from parts(2) [unfolded lower_pdf_iff] obtain a b c where abc: "mid = [CHR ''.'', a, b, c]"
    "a \<in> {CHR ''p'', CHR ''P''}" "b \<in> {CHR ''d'', CHR ''D''}" "c \<in> {CHR ''f'', CHR ''F''}"
    by (elim exE conjE)
  have "doc_url = pre @ [CHR ''.'', a, b, c] @ post"
    using parts(1) abc(1) by (simp only:)
  with abc(2-4) show "\<exists>pre a b c post. doc_url = pre @ [CHR ''.'', a, b, c] @ post \<and>
        a \<in> {CHR ''p'', CHR ''P''} \<and> b \<in> {CHR ''d'', CHR ''D''} \<and> c \<in> {CHR ''f'', CHR ''F''}"
    by (intro exI [of _ pre] exI [of _ a] exI [of _ b] exI [of _ c] exI [of _ post] conjI)
next
  assume "\<exists>pre a b c post. doc_url = pre @ [CHR ''.'', a, b, c] @ post \<and>
        a \<in> {CHR ''p'', CHR ''P''} \<and> b \<in> {CHR ''d'', CHR ''D''} \<and> c \<in> {CHR ''f'', CHR ''F''}"
  then obtain pre a b c post where u: "doc_url = pre @ [CHR ''.'', a, b, c] @ post"
    and abc: "a \<in> {CHR ''p'', CHR ''P''}" "b \<in> {CHR ''d'', CHR ''D''}" "c \<in> {CHR ''f'', CHR ''F''}"
    by (elim exE conjE)
  have "\<exists>a' b' c'. [CHR ''.'', a, b, c] = [CHR ''.'', a', b', c'] \<and> a' \<in> {CHR ''p'', CHR ''P''} \<and>
      b' \<in> {CHR ''d'', CHR ''D''} \<and> c' \<in> {CHR ''f'', CHR ''F''}"
    using abc by (intro exI [of _ a] exI [of _ b] exI [of _ c] conjI refl)
  then have "map lower_char [CHR ''.'', a, b, c] = ''.pdf''"
    by (rule iffD2 [OF lower_pdf_iff])
  then have "lower doc_url = map lower_char pre @ ''.pdf'' @ map lower_char post"
    unfolding lower_def u by (simp only: map_append)
  then show "contains ''.pdf'' (lower doc_url)"
    by (simp only: contains_intro)
qed


section \<open>The stamp of the chunker\<close>

lemma basename_parts:
  "\<exists>dir. p = dir @ basename p \<and> CHR ''/'' \<notin> set (basename p) \<and> (dir = [] \<or> last dir = CHR ''/'')"
proof -
  define P where "P = (\<lambda>c. c \<noteq> CHR ''/'')"
  define dir where "dir = rev (dropWhile P (rev p))"
  have b: "basename p = rev (takeWhile P (rev p))"
    by (simp only: basename_def P_def)
  have "rev p = takeWhile P (rev p) @ dropWhile P (rev p)"
    by (simp only: takeWhile_dropWhile_id)
  then have "rev (rev p) = rev (takeWhile P (rev p) @ dropWhile P (rev p))"
    by (rule arg_cong)
  then have 1: "p = dir @ basename p"
    by (simp only: rev_rev_ident rev_append b dir_def)
  have "\<forall>x\<in>set (takeWhile P (rev p)). P x"
    by (meson set_takeWhileD)
  then have 2: "CHR ''/'' \<notin> set (basename p)"
    unfolding b set_rev P_def by fast
  have 3: "dir = [] \<or> last dir = CHR ''/''"
  proof (cases "dropWhile P (rev p)")
    case Nil
    then show ?thesis by (simp add: dir_def)
  next
    case (Cons x xs)
    then have "dropWhile P (rev p) \<noteq> []"
      by simp
    then have "\<not> P (hd (dropWhile P (rev p)))"
      by (rule hd_dropWhile)
    with Cons have "x = CHR ''/''"
      by (simp add: P_def)
    with Cons show ?thesis
      by (simp add: dir_def)
  qed
  from 1 2 3 show ?thesis
    by (intro exI [of _ dir] conjI)
qed

lemma source_filename_eq:
  "source_filename doc_url = basename (takeWhile (\<lambda>c. c \<noteq> CHR ''?'') doc_url)"
  by (simp only: source_filename_def hd_split_on)

lemma stamp_source_url:
  "map_of (metadata (stamp doc_url chunk)) ''source_url'' = Some (MStr doc_url)"
  by (simp add: stamp_def map_of_dict_set_same)

lemma stamp_source_document:
  "map_of (metadata (stamp doc_url chunk)) ''source_document'' = Some (MStr (source_filename doc_url))"
proof -
  have ne: "''source_document'' \<noteq> ''source_url''"
    by simp
  show ?thesis
    by (simp add: stamp_def map_of_dict_set_other [OF ne] map_of_dict_set_same)
qed

lemma fst_get_document_chunks:
  "fst (get_document_chunks env st doc_url) =
     (case http_get env doc_url of
        Inl e \<Rightarrow> Inl (on_request_exception e)
      | Inr body \<Rightarrow>
          (case loader env doc_url body of
             Inl e \<Rightarrow> Inl (on_request_exception e)
           | Inr docs \<Rightarrow> Inr (map (stamp doc_url) (split_documents env docs))))"
  by (simp add: get_document_chunks_def Let_def split: sum.splits)

lemma chunks_stamped:
  assumes "fst (get_document_chunks env st doc_url) = Inr chunks"
  shows "\<exists>cs. chunks = map (stamp doc_url) cs"
  using assms unfolding fst_get_document_chunks by (auto split: sum.splits)


section \<open>A document that yields no chunk\<close>

lemma store_writes_append: "store_writes (xs @ ys) = store_writes xs @ store_writes ys"
  by (induction xs rule: store_writes.induct) auto

lemma get_document_chunks_empty:
  assumes "http_get env doc_url = Inr body" and "loader env doc_url body = Inr docs"
    and "split_documents env docs = []"
  shows "get_document_chunks env st doc_url =
    (Inr [], log_event (Load (file_suffix doc_url)) (log_event (Download doc_url) st))"
  by (simp add: get_document_chunks_def Let_def assms)

lemma gate_empty_chunks:
  assumes e: "http_get env doc_url = Inr body" "loader env doc_url body = Inr docs"
    "split_documents env docs = []"
    and c: "mongo_collection st \<noteq> None \<or> can_connect env"
    and n: "count_documents (persisted st) doc_url 1 = 0"
  shows "fst (get_mongo_vector_search env st doc_url) =
      Inl (HTTPException 400 ''Document could not be processed.'')"
    and "persisted (snd (get_mongo_vector_search env st doc_url)) = persisted st"
    and "store_writes (trace (snd (get_mongo_vector_search env st doc_url))) = store_writes (trace st)"
proof -
  define init where
    "init = (if mongo_collection st = None then initialize_mongodb env st else (True, st))"
  have ok: "fst init = True"
    using c by (auto simp: init_def initialize_mongodb_def Let_def)
  have p: "persisted (snd init) = persisted st"
    by (simp add: init_def initialize_mongodb_def Let_def)
  have t: "store_writes (trace (snd init)) = store_writes (trace st)"
    by (simp add: init_def initialize_mongodb_def Let_def store_writes_append)
  have g: "get_mongo_vector_search env st doc_url =
      (Inl (HTTPException 400 ''Document could not be processed.''),
       log_event (Load (file_suffix doc_url)) (log_event (Download doc_url) (snd init)))"
    unfolding get_mongo_vector_search_def init_def [symmetric]
    using ok p n by (cases init) (simp add: get_document_chunks_empty [OF e])
  show "fst (get_mongo_vector_search env st doc_url) =
      Inl (HTTPException 400 ''Document could not be processed.'')"
    by (simp only: g fst_conv)
  show "persisted (snd (get_mongo_vector_search env st doc_url)) = persisted st"
    by (simp only: g snd_conv persisted_log_event p)
  show "store_writes (trace (snd (get_mongo_vector_search env st doc_url))) = store_writes (trace st)"
    by (simp add: g store_writes_append t)
qed

lemma chunker_failure:
  assumes "fst (get_document_chunks env st doc_url) = Inl e"
  shows "\<exists>e'. e = on_request_exception e' \<and>
     (http_get env doc_url = Inl e' \<or>
      (\<exists>body. http_get env doc_url = Inr body \<and> loader env doc_url body = Inl e'))"
proof (cases "http_get env doc_url")
  case (Inl e')
  with assms have "e = on_request_exception e'"
    by (simp add: fst_get_document_chunks)
  with Inl show ?thesis
    by (intro exI [of _ e'] conjI disjI1)
next
  case (Inr body)
  note body = this
  show ?thesis
  proof (cases "loader env doc_url body")
    case (Inl e')
    with assms body have "e = on_request_exception e'"
      by (simp add: fst_get_document_chunks)
    moreover have "\<exists>body. http_get env doc_url = Inr body \<and> loader env doc_url body = Inl e'"
      using body Inl by (intro exI [of _ body] conjI)
    ultimately show ?thesis
      by (intro exI [of _ e'] conjI disjI2)
  next
    case (Inr docs)
    with assms body show ?thesis
      by (simp add: fst_get_document_chunks)
  qed
qed


section \<open>A first ingestion\<close>

lemma embed_all_length: "embed_all f ts = Inr vs \<Longrightarrow> length vs = length ts"
  by (induction ts arbitrary: vs) (auto split: sum.splits)

lemma count_documents_pos:
  "count_documents coll doc_url 1 \<noteq> 0 \<longleftrightarrow> (\<exists>d\<in>set coll. has_source_url doc_url d)"
  by (simp add: count_documents_def filter_empty_conv)

lemma has_source_url_stamped: "has_source_url doc_url (to_stored (stamp doc_url c, v))"
  by (simp only: has_source_url_def to_stored_def stored.simps fst_conv stamp_source_url)

lemma get_document_chunks_success:
  assumes "get_document_chunks env st doc_url = (Inr chunks, st2)"
  shows "st2 = log_event (Load (file_suffix doc_url)) (log_event (Download doc_url) st)"
    and "\<exists>cs. chunks = map (stamp doc_url) cs"
proof -
  from assms show "st2 = log_event (Load (file_suffix doc_url)) (log_event (Download doc_url) st)"
    by (simp add: get_document_chunks_def Let_def split: sum.splits)
  from assms have "fst (get_document_chunks env st doc_url) = Inr chunks"
    by simp
  then show "\<exists>cs. chunks = map (stamp doc_url) cs"
    by (rule chunks_stamped)
qed

lemma from_documents_success:
  assumes "from_documents env st cs = (Inr vs, st')"
  shows "\<exists>vectors. length vectors = length cs \<and> vs = bound_handle \<and>
    st' = log_event (StoreWrite (map to_stored (zip cs vectors)))
            ((log_event (Embed (map page_content cs)) st)
               \<lparr>persisted := persisted st @ map to_stored (zip cs vectors)\<rparr>)"
proof (cases "embed_all (embed env) (map page_content cs)")
  case (Inl e)
  with assms show ?thesis
    by (simp add: from_documents_def Let_def)
next
  case (Inr vectors)
  from embed_all_length [OF Inr] have "length vectors = length cs"
    by simp
  moreover from assms Inr have "vs = bound_handle"
    and "st' = log_event (StoreWrite (map to_stored (zip cs vectors)))
            ((log_event (Embed (map page_content cs)) st)
               \<lparr>persisted := persisted st @ map to_stored (zip cs vectors)\<rparr>)"
    by (simp_all add: from_documents_def Let_def)
  ultimately show ?thesis
    by (intro exI [of _ vectors] conjI)
qed


lemma gate_ingest:
  assumes n: "count_documents (persisted st) doc_url 1 = 0"
    and g: "get_mongo_vector_search env st doc_url = (Inr vs, st1)"
  shows "mongo_collection st1 \<noteq> None"
    and "count_documents (persisted st1) doc_url 1 \<noteq> 0"
    and "\<exists>texts docs. docs \<noteq> [] \<and>
      trace st1 = trace st @ (if mongo_collection st = None then [Connect] else []) @
        [Download doc_url, Load (file_suffix doc_url), Embed texts, StoreWrite docs] \<and>
      persisted st1 = persisted st @ docs"
proof -
  define init where
    "init = (if mongo_collection st = None then initialize_mongodb env st else (True, st))"
  define st0 where "st0 = snd init"
  have init: "init = (fst init, st0)"
    by (simp add: st0_def)
  have ok: "fst init"
    using g unfolding get_mongo_vector_search_def init_def [symmetric]
    by (cases init) (auto split: if_splits)
  have p0: "persisted st0 = persisted st"
    by (simp add: st0_def init_def initialize_mongodb_def Let_def)
  have m0: "mongo_collection st0 \<noteq> None"
    using ok by (auto simp: st0_def init_def initialize_mongodb_def Let_def split: if_splits)
  have t0: "trace st0 = trace st @ (if mongo_collection st = None then [Connect] else [])"
    by (simp add: st0_def init_def initialize_mongodb_def Let_def)
  obtain r st2 where ch: "get_document_chunks env st0 doc_url = (r, st2)"
    by (cases "get_document_chunks env st0 doc_url")
  have g': "(case r of Inl e \<Rightarrow> (Inl e, st2)
       | Inr doc_chunks \<Rightarrow>
           if doc_chunks = []
           then (Inl (HTTPException 400 ''Document could not be processed.''), st2)
           else from_documents env st2 doc_chunks) = (Inr vs, st1)"
  proof -
    have n': "count_documents (persisted st) doc_url (Suc 0) = 0"
      using n by simp
    show ?thesis
      using g unfolding get_mongo_vector_search_def init_def [symmetric]
      by (subst (asm) init) (simp add: ok p0 n' ch split: sum.splits)
  qed
  then obtain chunks where r: "r = Inr chunks"
    by (cases r) simp_all
  with g' have ne: "chunks \<noteq> []" and fd: "from_documents env st2 chunks = (Inr vs, st1)"
    by (simp_all split: if_splits)
  from get_document_chunks_success [OF ch [unfolded r]]
  have st2: "st2 = log_event (Load (file_suffix doc_url)) (log_event (Download doc_url) st0)"
    and "\<exists>cs. chunks = map (stamp doc_url) cs"
    by simp_all
  then obtain cs where cs: "chunks = map (stamp doc_url) cs"
    by (elim exE)
  from from_documents_success [OF fd] obtain vectors where
    len: "length vectors = length chunks" and
    st1: "st1 = log_event (StoreWrite (map to_stored (zip chunks vectors)))
            ((log_event (Embed (map page_content chunks)) st2)
               \<lparr>persisted := persisted st2 @ map to_stored (zip chunks vectors)\<rparr>)"
    by (elim exE conjE)
  define docs where "docs = map to_stored (zip chunks vectors)"
  have docs_ne: "docs \<noteq> []"
    using ne len by (cases chunks; cases vectors) (simp_all add: docs_def)
  have pers: "persisted st1 = persisted st @ docs"
    by (simp add: st1 st2 p0 docs_def)
  show "mongo_collection st1 \<noteq> None"
    using m0 by (simp add: st1 st2)
  have "\<forall>d\<in>set docs. has_source_url doc_url d"
  proof
    fix d assume "d \<in> set docs"
    then obtain c v where "(c, v) \<in> set (zip chunks vectors)" "d = to_stored (c, v)"
      unfolding docs_def by auto
    moreover from this(1) have "c \<in> set chunks"
      by (rule set_zip_leftD)
    then obtain c' where "c = stamp doc_url c'"
      unfolding cs by auto
    ultimately show "has_source_url doc_url d"
      by (simp only: has_source_url_stamped)
  qed
  with docs_ne have "\<exists>d\<in>set (persisted st1). has_source_url doc_url d"
    unfolding pers by (cases docs) simp_all
  then show "count_documents (persisted st1) doc_url 1 \<noteq> 0"
    by (simp only: count_documents_pos)
  have "trace st1 = trace st @ (if mongo_collection st = None then [Connect] else []) @
        [Download doc_url, Load (file_suffix doc_url), Embed (map page_content chunks),
         StoreWrite docs]"
    by (simp add: st1 st2 t0 docs_def)
  with docs_ne pers show "\<exists>texts docs. docs \<noteq> [] \<and>
      trace st1 = trace st @ (if mongo_collection st = None then [Connect] else []) @
        [Download doc_url, Load (file_suffix doc_url), Embed texts, StoreWrite docs] \<and>
      persisted st1 = persisted st @ docs"
    by (intro exI [of _ "map page_content chunks"] exI [of _ docs] conjI)
qed


section \<open>The claims\<close>

text \<open>
  C1. On the model output \<open>1. A\<close>, \<open>2. B\<close>, \<open>3. C\<close> (three lines, the output starting at
  \<open>1.\<close> as the prompt demands) with three questions, the parser returns three answers, yet
  the first one keeps its marker: the pattern starts at a newline, and no newline stands
  before the first marker. The answers are \<open>1. A\<close>, \<open>B\<close> and \<open>C\<close>, not \<open>A\<close>, \<open>B\<close> and \<open>C\<close>.
\<close>

theorem parse_keeps_first_marker:
  "parse_answers ''1. A\<newline>2. B\<newline>3. C'' 3 = [''1. A'', ''B'', ''C'']"
  by code_simp


text \<open>
  C2. When the gate has returned a handle and every question of the request retrieves no
  chunk, the response is the sentinel sentence once per question, and no call of the
  generative model is made during the request.
\<close>

theorem empty_evidence_sentinel:
  assumes gate: "get_mongo_vector_search env st (documents request) = (Inr vs, st1)"
    and none: "\<forall>q\<in>set (questions request). similarity_search env (persisted st1) q 5 = Inr []"
  shows "fst (run_submission env st request) =
           Inr \<lparr>answers = replicate (length (questions request)) sentinel\<rparr> \<and>
         (\<exists>es. trace (snd (run_submission env st request)) = trace st @ es \<and> llm_calls es = [])"
proof -
  have "fst (retrieve_all env st1 (questions request) []) = Inr []"
    using retrieve_success [OF none, of "[]"] by (simp add: concat_map_Nil)
  then obtain st2 where r: "retrieve_all env st1 (questions request) [] = (Inr [], st2)"
    by (cases "retrieve_all env st1 (questions request) []") simp
  have "fst (run_body env st request) =
          Inr \<lparr>answers = replicate (length (questions request)) sentinel\<rparr>"
    using gate r by (simp add: run_body_def)
  moreover have "\<exists>es. trace (snd (run_body env st request)) = trace st @ es \<and> llm_calls es = []"
    using run_body_llm_calls [of env st request] gate r by simp
  ultimately show ?thesis
    by (simp add: fst_run_submission snd_run_submission)
qed

theorem empty_evidence_sentinel_witness:
  "get_mongo_vector_search (example_env\<lparr>similarity_search := \<lambda>coll q k. Inr []\<rparr>) st_indexed
       (documents example_request) = (Inr bound_handle, st_indexed) \<and>
   similarity_search (example_env\<lparr>similarity_search := \<lambda>coll q k. Inr []\<rparr>)
       (persisted st_indexed) ''q1'' 5 = Inr [] \<and>
   similarity_search (example_env\<lparr>similarity_search := \<lambda>coll q k. Inr []\<rparr>)
       (persisted st_indexed) ''q2'' 5 = Inr [] \<and>
   questions example_request = [''q1'', ''q2''] \<and>
   fst (run_submission (example_env\<lparr>similarity_search := \<lambda>coll q k. Inr []\<rparr>) st_indexed
       example_request) = Inr \<lparr>answers = [sentinel, sentinel]\<rparr> \<and>
   llm_calls (trace (snd (run_submission (example_env\<lparr>similarity_search := \<lambda>coll q k. Inr []\<rparr>)
       st_indexed example_request))) = []"
proof -
  let ?env = "example_env\<lparr>similarity_search := \<lambda>coll q k. Inr []\<rparr>"
  have g: "get_mongo_vector_search ?env st_indexed (documents example_request) =
      (Inr bound_handle, st_indexed)"
    by (simp add: get_mongo_vector_search_def st_indexed_def example_request_def
        count_documents_def has_source_url_def)
  have n: "\<forall>q\<in>set (questions example_request).
      similarity_search ?env (persisted st_indexed) q 5 = Inr []"
    by simp
  have t: "trace st_indexed = []"
    by (simp add: st_indexed_def)
  show ?thesis
    using empty_evidence_sentinel [OF g n] g n t
    by (auto simp: example_request_def llm_calls_append numeral_2_eq_2)
qed

text \<open>
  C3. When the number of fragments differs from the expected count, the parser returns the
  raw model output alone, as it is; and a request that reached the model with such an
  output succeeds with that single answer.
\<close>

theorem mismatch_returns_raw_output:
  "(length (split_answers out) \<noteq> n \<longrightarrow> parse_answers out n = [out]) \<and>
   (get_mongo_vector_search env st (documents request) = (Inr vs, st1) \<and>
    retrieve_all env st1 (questions request) [] = (Inr ev, st2) \<and> ev \<noteq> [] \<and>
    llm_invoke env (final_prompt_str ev (questions request)) = Inr out \<and>
    length (split_answers out) \<noteq> length (questions request)
    \<longrightarrow> fst (run_submission env st request) = Inr \<lparr>answers = [out]\<rparr>)"
  by (simp add: parse_answers_def fst_run_submission run_body_def Let_def)

theorem mismatch_returns_raw_output_witness:
  "length (split_answers ''1. A\<newline>2. B'') \<noteq> 3 \<and>
   parse_answers ''1. A\<newline>2. B'' 3 = [''1. A\<newline>2. B''] \<and>
   get_mongo_vector_search example_env st_indexed
     (documents (example_request\<lparr>questions := [''q1'', ''q2'', ''q3'']\<rparr>)) = (Inr bound_handle, st_indexed) \<and>
   fst (retrieve_all example_env st_indexed
     (questions (example_request\<lparr>questions := [''q1'', ''q2'', ''q3'']\<rparr>)) []) =
       Inr [(''alpha'', chunk_a), (''beta'', chunk_b), (''gamma'', chunk_c)] \<and>
   fst (run_submission example_env st_indexed (example_request\<lparr>questions := [''q1'', ''q2'', ''q3'']\<rparr>)) =
     Inr \<lparr>answers = [''1. A\<newline>2. B'']\<rparr>"
proof -
  let ?req = "example_request\<lparr>questions := [''q1'', ''q2'', ''q3'']\<rparr>"
  let ?ev = "[(''alpha'', chunk_a), (''beta'', chunk_b), (''gamma'', chunk_c)]"
  let ?st2 = "snd (retrieve_all example_env st_indexed (questions ?req) [])"
  have l: "length (split_answers ''1. A\<newline>2. B'') \<noteq> 3"
    by code_simp
  have g: "get_mongo_vector_search example_env st_indexed (documents ?req) =
      (Inr bound_handle, st_indexed)"
    by (simp add: get_mongo_vector_search_def st_indexed_def example_request_def
        count_documents_def has_source_url_def)
  have r: "fst (retrieve_all example_env st_indexed (questions ?req) []) = Inr ?ev"
    by (simp add: example_env_def example_request_def Let_def chunk_a_def chunk_b_def chunk_c_def)
  then have r': "retrieve_all example_env st_indexed (questions ?req) [] = (Inr ?ev, ?st2)"
    by (metis prod.collapse)
  have i: "llm_invoke example_env (final_prompt_str ?ev (questions ?req)) = Inr ''1. A\<newline>2. B''"
    by (simp add: example_env_def)
  have q: "length (questions ?req) = 3"
    by simp
  show ?thesis
    using mismatch_returns_raw_output [of "''1. A\<newline>2. B''" 3 example_env st_indexed ?req
        bound_handle st_indexed ?ev ?st2] l g r r' i q
    by simp
qed

text \<open>
  C9. A request that succeeds answers with as many answers as it has questions, or with one
  answer, and the answers are of three kinds only: the sentinel sentence once per question,
  when the evidence set is empty; the fragments of the model output, when their number is
  the number of questions; the raw model output alone, when it is not. No response holds
  the answers of some of the questions only.
\<close>

theorem answers_all_or_one:
  assumes "fst (run_submission env st request) = Inr response"
  shows "(length (answers response) = length (questions request) \<or> length (answers response) = 1) \<and>
    ((\<exists>vs st1 st2.
        get_mongo_vector_search env st (documents request) = (Inr vs, st1) \<and>
        retrieve_all env st1 (questions request) [] = (Inr [], st2) \<and>
        answers response = replicate (length (questions request)) sentinel) \<or>
     (\<exists>vs st1 ev st2 out.
        get_mongo_vector_search env st (documents request) = (Inr vs, st1) \<and>
        retrieve_all env st1 (questions request) [] = (Inr ev, st2) \<and> ev \<noteq> [] \<and>
        llm_invoke env (final_prompt_str ev (questions request)) = Inr out \<and>
        (if length (split_answers out) = length (questions request)
         then answers response = split_answers out
         else answers response = [out])))"
proof (cases rule: run_body_cases [of env st request])
  case (gate_fails e st1)
  with assms show ?thesis by (simp add: fst_run_submission)
next
  case (search_fails vs st1 e st2)
  with assms show ?thesis by (simp add: fst_run_submission)
next
  case (no_evidence vs st1 st2)
  with assms have a: "answers response = replicate (length (questions request)) sentinel"
    by (auto simp: fst_run_submission)
  then have "length (answers response) = length (questions request)"
    by simp
  moreover have "\<exists>vs st1 st2.
        get_mongo_vector_search env st (documents request) = (Inr vs, st1) \<and>
        retrieve_all env st1 (questions request) [] = (Inr [], st2) \<and>
        answers response = replicate (length (questions request)) sentinel"
    using no_evidence(1,2) a by (intro exI [of _ vs] exI [of _ st1] exI [of _ st2] conjI)
  ultimately show ?thesis
    by (intro conjI disjI1)
next
  case (llm_fails vs st1 ev st2 e)
  with assms show ?thesis by (simp add: fst_run_submission)
next
  case (answered vs st1 ev st2 out)
  with assms have a: "answers response = parse_answers out (length (questions request))"
    by (auto simp: fst_run_submission)
  then have c: "if length (split_answers out) = length (questions request)
         then answers response = split_answers out
         else answers response = [out]"
    by (simp add: parse_answers_def Let_def)
  have l: "length (answers response) = length (questions request) \<or> length (answers response) = 1"
    unfolding a by (rule length_parse_answers)
  have ex: "\<exists>vs st1 ev st2 out.
        get_mongo_vector_search env st (documents request) = (Inr vs, st1) \<and>
        retrieve_all env st1 (questions request) [] = (Inr ev, st2) \<and> ev \<noteq> [] \<and>
        llm_invoke env (final_prompt_str ev (questions request)) = Inr out \<and>
        (if length (split_answers out) = length (questions request)
         then answers response = split_answers out
         else answers response = [out])"
    using answered(1-4) c
    by (intro exI [of _ vs] exI [of _ st1] exI [of _ ev] exI [of _ st2] exI [of _ out] conjI)
  show ?thesis
    by (rule conjI [OF l disjI2 [OF ex]])
qed

theorem answers_all_or_one_witness:
  "fst (run_submission example_env st_indexed example_request) = Inr \<lparr>answers = [''1. A'', ''B'']\<rparr> \<and>
   split_answers ''1. A\<newline>2. B'' = [''1. A'', ''B''] \<and>
   length (questions example_request) = 2 \<and>
   fst (run_submission example_env st_indexed (example_request\<lparr>questions := [''q1'', ''q2'', ''q3'']\<rparr>)) =
     Inr \<lparr>answers = [''1. A\<newline>2. B'']\<rparr> \<and>
   (length (answers \<lparr>answers = [''1. A'', ''B'']\<rparr>) = length (questions example_request) \<or>
    length (answers \<lparr>answers = [''1. A'', ''B'']\<rparr>) = 1) \<and>
   (length (answers \<lparr>answers = [''1. A\<newline>2. B'']\<rparr>) =
      length (questions (example_request\<lparr>questions := [''q1'', ''q2'', ''q3'']\<rparr>)) \<or>
    length (answers \<lparr>answers = [''1. A\<newline>2. B'']\<rparr>) = 1)"
proof -
  let ?req3 = "example_request\<lparr>questions := [''q1'', ''q2'', ''q3'']\<rparr>"
  have sa: "split_answers ''1. A\<newline>2. B'' = [''1. A'', ''B'']"
    by code_simp
  have "parse_answers ''1. A\<newline>2. B'' 2 = [''1. A'', ''B'']"
    by code_simp
  then have p: "parse_answers ''1. A\<newline>2. B'' (Suc (Suc 0)) = [''1. A'', ''B'']"
    by (simp add: numeral_2_eq_2)
  have "parse_answers ''1. A\<newline>2. B'' 3 = [''1. A\<newline>2. B'']"
    by code_simp
  then have p3: "parse_answers ''1. A\<newline>2. B'' (Suc (Suc (Suc 0))) = [''1. A\<newline>2. B'']"
    by (simp add: numeral_3_eq_3)
  have q: "length (questions example_request) = 2"
    by (simp add: example_request_def)
  have r: "fst (run_submission example_env st_indexed example_request) =
      Inr \<lparr>answers = [''1. A'', ''B'']\<rparr>"
    by (simp add: fst_run_submission run_body_def get_mongo_vector_search_def st_indexed_def
        example_request_def count_documents_def has_source_url_def example_env_def Let_def
        chunk_a_def chunk_b_def chunk_c_def p split: prod.splits)
  have r3: "fst (run_submission example_env st_indexed ?req3) =
      Inr \<lparr>answers = [''1. A\<newline>2. B'']\<rparr>"
    by (simp add: fst_run_submission run_body_def get_mongo_vector_search_def st_indexed_def
        example_request_def count_documents_def has_source_url_def example_env_def Let_def
        chunk_a_def chunk_b_def chunk_c_def p3 split: prod.splits)
  note t = answers_all_or_one [OF r, THEN conjunct1]
  note t3 = answers_all_or_one [OF r3, THEN conjunct1]
  from r sa q r3 t t3 show ?thesis
    by (intro conjI)
qed

text \<open>
  C4. When every search of the batch returns its documents, the evidence set is what the
  documents, taken in the order they were retrieved, leave in the dict: every distinct text
  is one key, the keys stand in the order of their first retrieval, and the combined
  context joins the texts in that order. A text retrieved again neither moves nor appears
  twice (\<open>first_seen_snoc\<close>).
\<close>

theorem evidence_first_seen:
  assumes "\<forall>q\<in>set qs. similarity_search env (persisted st) q 5 = Inr (results q)"
  shows "fst (retrieve_all env st qs []) = Inr (add_docs (concat (map results qs)) []) \<and>
    map fst (add_docs (concat (map results qs)) []) =
      first_seen (map page_content (concat (map results qs))) \<and>
    distinct (map fst (add_docs (concat (map results qs)) [])) \<and>
    combined_context (add_docs (concat (map results qs)) []) =
      join ''\<newline>\<newline>---\<newline>\<newline>'' (first_seen (map page_content (concat (map results qs))))"
proof -
  have k: "map fst (add_docs (concat (map results qs)) []) =
      first_seen (map page_content (concat (map results qs)))"
    using keys_add_docs [of "[]" "concat (map results qs)"] by simp
  have "combined_context (add_docs (concat (map results qs)) []) =
      join ''\<newline>\<newline>---\<newline>\<newline>'' (map fst (add_docs (concat (map results qs)) []))"
    unfolding combined_context_def by (simp only: add_docs_texts)
  with k retrieve_success [OF assms, of "[]"] show ?thesis
    by (simp add: distinct_first_seen)
qed

theorem evidence_first_seen_witness:
  "similarity_search example_env (persisted st_indexed) ''q1'' 5 = Inr [chunk_a, chunk_b] \<and>
   similarity_search example_env (persisted st_indexed) ''q2'' 5 = Inr [chunk_b, chunk_c] \<and>
   fst (retrieve_all example_env st_indexed [''q1'', ''q2''] []) =
     Inr [(''alpha'', chunk_a), (''beta'', chunk_b), (''gamma'', chunk_c)] \<and>
   first_seen (map page_content [chunk_a, chunk_b, chunk_b, chunk_c]) = [''alpha'', ''beta'', ''gamma''] \<and>
   combined_context [(''alpha'', chunk_a), (''beta'', chunk_b), (''gamma'', chunk_c)] =
     ''alpha\<newline>\<newline>---\<newline>\<newline>beta\<newline>\<newline>---\<newline>\<newline>gamma''"
proof -
  let ?res = "\<lambda>q. if q = ''q1'' then [chunk_a, chunk_b] else [chunk_b, chunk_c]"
  have h1: "similarity_search example_env (persisted st_indexed) ''q1'' 5 = Inr [chunk_a, chunk_b]"
    by (simp add: example_env_def)
  have h2: "similarity_search example_env (persisted st_indexed) ''q2'' 5 = Inr [chunk_b, chunk_c]"
    by (simp add: example_env_def)
  have h: "\<forall>q\<in>set [''q1'', ''q2'']. similarity_search example_env (persisted st_indexed) q 5 = Inr (?res q)"
    using h1 h2 by simp
  have c: "concat (map ?res [''q1'', ''q2'']) = [chunk_a, chunk_b, chunk_b, chunk_c]"
    by simp
  have a: "add_docs [chunk_a, chunk_b, chunk_b, chunk_c] [] =
      [(''alpha'', chunk_a), (''beta'', chunk_b), (''gamma'', chunk_c)]"
    by (simp add: chunk_a_def chunk_b_def chunk_c_def)
  have f: "first_seen (map page_content [chunk_a, chunk_b, chunk_b, chunk_c]) = [''alpha'', ''beta'', ''gamma'']"
    by (simp add: chunk_a_def chunk_b_def chunk_c_def)
  have j: "join ''\<newline>\<newline>---\<newline>\<newline>'' [''alpha'', ''beta'', ''gamma''] =
      ''alpha\<newline>\<newline>---\<newline>\<newline>beta\<newline>\<newline>---\<newline>\<newline>gamma''"
    by simp
  note t = evidence_first_seen [OF h, unfolded c a f j]
  from t h1 h2 f show ?thesis
    by blast
qed


text \<open>
  C10. The format is decided by the URL alone: the document is loaded as PDF exactly when
  the URL holds, anywhere, a period followed by \<open>p\<close>, \<open>d\<close> and \<open>f\<close> in either case, and as
  DOCX for every other URL. The decision has two outcomes and rejects nothing.
\<close>

theorem format_by_url_substring:
  "file_suffix doc_url =
     (if (\<exists>pre a b c post. doc_url = pre @ [CHR ''.'', a, b, c] @ post \<and>
            a \<in> {CHR ''p'', CHR ''P''} \<and> b \<in> {CHR ''d'', CHR ''D''} \<and> c \<in> {CHR ''f'', CHR ''F''})
      then ''.pdf'' else ''.docx'') \<and>
   loader env doc_url =
     (if (\<exists>pre a b c post. doc_url = pre @ [CHR ''.'', a, b, c] @ post \<and>
            a \<in> {CHR ''p'', CHR ''P''} \<and> b \<in> {CHR ''d'', CHR ''D''} \<and> c \<in> {CHR ''f'', CHR ''F''})
      then load_pdf env else load_docx env)"
proof -
  have ne: "''.docx'' \<noteq> ''.pdf''"
    by simp
  show ?thesis
    unfolding loader_def file_suffix_def file_suffix_pdf_iff [symmetric]
    using ne by (cases "contains ''.pdf'' (lower doc_url)") (simp_all only: if_True if_False refl simp_thms)
qed

theorem format_by_url_substring_witness:
  "file_suffix ''http://host/get?name=Report.PDF'' = ''.pdf'' \<and>
   loader example_env ''http://host/get?name=Report.PDF'' = load_pdf example_env \<and>
   file_suffix ''http://host/notes.txt'' = ''.docx''"
proof -
  have "''http://host/get?name=Report.PDF'' =
      ''http://host/get?name=Report'' @ [CHR ''.'', CHR ''P'', CHR ''D'', CHR ''F''] @ [] \<and>
      CHR ''P'' \<in> {CHR ''p'', CHR ''P''} \<and> CHR ''D'' \<in> {CHR ''d'', CHR ''D''} \<and>
      CHR ''F'' \<in> {CHR ''f'', CHR ''F''}"
    by simp
  then have ex: "\<exists>pre a b c post. ''http://host/get?name=Report.PDF'' = pre @ [CHR ''.'', a, b, c] @ post \<and>
      a \<in> {CHR ''p'', CHR ''P''} \<and> b \<in> {CHR ''d'', CHR ''D''} \<and> c \<in> {CHR ''f'', CHR ''F''}"
    by (intro exI)
  have plain: "file_suffix ''http://host/notes.txt'' = ''.docx''"
    by code_simp
  from format_by_url_substring [of "''http://host/get?name=Report.PDF''" example_env] ex plain
  show ?thesis
    by (simp only: if_True simp_thms)
qed


text \<open>
  C8. Every chunk the chunker returns carries, in its metadata, \<open>source_url\<close> equal to the
  URL as given and \<open>source_document\<close> equal to the base name of the URL cut at its first
  question mark: what follows the last slash of that prefix.
\<close>

theorem chunks_carry_source:
  assumes "fst (get_document_chunks env st doc_url) = Inr chunks" and "chunk \<in> set chunks"
  shows "map_of (metadata chunk) ''source_url'' = Some (MStr doc_url) \<and>
    map_of (metadata chunk) ''source_document'' = Some (MStr (source_filename doc_url)) \<and>
    (\<exists>dir. takeWhile (\<lambda>c. c \<noteq> CHR ''?'') doc_url = dir @ source_filename doc_url \<and>
       CHR ''/'' \<notin> set (source_filename doc_url) \<and> (dir = [] \<or> last dir = CHR ''/''))"
proof -
  from chunks_stamped [OF assms(1)] obtain cs where "chunks = map (stamp doc_url) cs"
    by (elim exE)
  with assms(2) obtain c where "chunk = stamp doc_url c"
    by auto
  then have "map_of (metadata chunk) ''source_url'' = Some (MStr doc_url)"
    and "map_of (metadata chunk) ''source_document'' = Some (MStr (source_filename doc_url))"
    by (simp_all only: stamp_source_url stamp_source_document)
  moreover have "\<exists>dir. takeWhile (\<lambda>c. c \<noteq> CHR ''?'') doc_url = dir @ source_filename doc_url \<and>
       CHR ''/'' \<notin> set (source_filename doc_url) \<and> (dir = [] \<or> last dir = CHR ''/'')"
    unfolding source_filename_eq by (rule basename_parts)
  ultimately show ?thesis
    by (intro conjI)
qed

theorem chunks_carry_source_witness:
  "fst (get_document_chunks example_env st_fresh example_url) =
     Inr [\<lparr>page_content = ''alpha beta'',
           metadata = [(''page'', MInt 0), (''source_document'', MStr ''policy.pdf''),
                       (''source_url'', MStr ''http://host/policy.pdf?v=2'')]\<rparr>] \<and>
   source_filename example_url = ''policy.pdf'' \<and>
   map_of [(''page'', MInt 0), (''source_document'', MStr ''policy.pdf''),
           (''source_url'', MStr ''http://host/policy.pdf?v=2'')] ''source_url'' =
     Some (MStr example_url)"
proof -
  let ?c = "\<lparr>page_content = ''alpha beta'',
           metadata = [(''page'', MInt 0), (''source_document'', MStr ''policy.pdf''),
                       (''source_url'', MStr ''http://host/policy.pdf?v=2'')]\<rparr>"
  have sf: "source_filename example_url = ''policy.pdf''"
    by (simp add: source_filename_def example_url_def basename_def)
  have fs: "file_suffix example_url = ''.pdf''"
    unfolding example_url_def by code_simp
  have g: "fst (get_document_chunks example_env st_fresh example_url) = Inr [?c]"
    unfolding fst_get_document_chunks loader_def fs
    by (simp add: example_env_def stamp_def sf) (simp add: example_url_def)
  have m: "?c \<in> set [?c]"
    by simp
  from chunks_carry_source [OF g m] g sf show ?thesis
    by simp
qed


text \<open>
  C7. The chunker does not fail on a document without text: for a PDF that loads as no
  page it returns the empty list of chunks. It fails only with the exception of the
  download or of the loader it chose, and it chooses a loader for every URL. The failure
  on a document that yields no chunk is raised by the gate, for a URL that is not indexed
  yet, as the HTTP error 400 \<open>Document could not be processed.\<close>, and nothing is written
  to the store.
\<close>

theorem empty_chunks_rejected_by_gate:
  "(http_get env doc_url = Inr body \<and> loader env doc_url body = Inr docs \<and>
    split_documents env docs = [] \<longrightarrow>
      fst (get_document_chunks env st doc_url) = Inr [] \<and>
      ((mongo_collection st \<noteq> None \<or> can_connect env) \<and>
       count_documents (persisted st) doc_url 1 = 0 \<longrightarrow>
         fst (get_mongo_vector_search env st doc_url) =
           Inl (HTTPException 400 ''Document could not be processed.'') \<and>
         persisted (snd (get_mongo_vector_search env st doc_url)) = persisted st \<and>
         store_writes (trace (snd (get_mongo_vector_search env st doc_url))) =
           store_writes (trace st))) \<and>
   (fst (get_document_chunks env st doc_url) = Inl e \<longrightarrow>
      (\<exists>e'. e = on_request_exception e' \<and>
         (http_get env doc_url = Inl e' \<or>
          (\<exists>body. http_get env doc_url = Inr body \<and> loader env doc_url body = Inl e'))))"
proof (intro conjI impI)
  assume a: "http_get env doc_url = Inr body \<and> loader env doc_url body = Inr docs \<and>
    split_documents env docs = []"
  then show "fst (get_document_chunks env st doc_url) = Inr []"
    by (simp add: fst_get_document_chunks)
  assume b: "(mongo_collection st \<noteq> None \<or> can_connect env) \<and>
       count_documents (persisted st) doc_url 1 = 0"
  from a b show "fst (get_mongo_vector_search env st doc_url) =
           Inl (HTTPException 400 ''Document could not be processed.'')"
    by (intro gate_empty_chunks(1) [of env doc_url body docs st]) (simp_all only:)
  from a b show "persisted (snd (get_mongo_vector_search env st doc_url)) = persisted st"
    by (intro gate_empty_chunks(2) [of env doc_url body docs st]) (simp_all only:)
  from a b show "store_writes (trace (snd (get_mongo_vector_search env st doc_url))) =
           store_writes (trace st)"
    by (intro gate_empty_chunks(3) [of env doc_url body docs st]) (simp_all only:)
next
  assume "fst (get_document_chunks env st doc_url) = Inl e"
  then show "\<exists>e'. e = on_request_exception e' \<and>
         (http_get env doc_url = Inl e' \<or>
          (\<exists>body. http_get env doc_url = Inr body \<and> loader env doc_url body = Inl e'))"
    by (rule chunker_failure)
qed

theorem empty_chunks_rejected_by_gate_witness:
  "http_get env_blank example_url = Inr ''bytes'' \<and>
   loader env_blank example_url ''bytes'' = Inr [] \<and>
   split_documents env_blank [] = [] \<and>
   can_connect env_blank \<and>
   count_documents (persisted st_fresh) example_url 1 = 0 \<and>
   fst (get_document_chunks env_blank st_fresh example_url) = Inr [] \<and>
   fst (get_mongo_vector_search env_blank st_fresh example_url) =
     Inl (HTTPException 400 ''Document could not be processed.'') \<and>
   persisted (snd (get_mongo_vector_search env_blank st_fresh example_url)) = []"
proof -
  have fs: "file_suffix example_url = ''.pdf''"
    unfolding example_url_def by code_simp
  have h: "http_get env_blank example_url = Inr ''bytes''"
    by (simp add: env_blank_def example_env_def)
  have l: "loader env_blank example_url ''bytes'' = Inr []"
    unfolding loader_def fs by (simp add: env_blank_def example_env_def)
  have s: "split_documents env_blank [] = []"
    by (simp add: env_blank_def example_env_def)
  have c: "can_connect env_blank"
    by (simp add: env_blank_def example_env_def)
  have n: "count_documents (persisted st_fresh) example_url 1 = 0"
    by (simp add: st_fresh_def count_documents_def)
  have p: "persisted st_fresh = []"
    by (simp add: st_fresh_def)
  from empty_chunks_rejected_by_gate [of env_blank example_url "''bytes''" "[]" st_fresh]
    h l s c n p
  show ?thesis
    by (simp only: simp_thms)
qed

text \<open>A PDF that loads as no page: the chunker returns, with no chunk.\<close>

theorem chunker_empty_counterexample:
  "fst (get_document_chunks env_blank st_fresh example_url) = Inr []"
proof -
  have fs: "file_suffix example_url = ''.pdf''"
    unfolding example_url_def by code_simp
  show ?thesis
    unfolding fst_get_document_chunks loader_def fs
    by (simp add: env_blank_def example_env_def)
qed

text \<open>
  C5. When a persisted chunk carries the URL as its \<open>source_url\<close> and the collection can be
  reached, the gate returns the handle bound to the collection, leaves the collection as it
  is, and makes no call but the connection it may need: no download, no load, no embedding,
  no write. And after a first ingestion of a URL that was not indexed, the trace holding
  one embedding and one write, a second call for the same URL returns the handle and leaves
  the whole state, its trace included, unchanged.
\<close>

theorem indexed_url_skips_ingestion:
  "((\<exists>d\<in>set (persisted st). map_of (stored_metadata d) ''source_url'' = Some (MStr doc_url)) \<and>
    (mongo_collection st \<noteq> None \<or> can_connect env) \<longrightarrow>
      fst (get_mongo_vector_search env st doc_url) = Inr bound_handle \<and>
      persisted (snd (get_mongo_vector_search env st doc_url)) = persisted st \<and>
      trace (snd (get_mongo_vector_search env st doc_url)) =
        trace st @ (if mongo_collection st = None then [Connect] else [])) \<and>
   (count_documents (persisted st) doc_url 1 = 0 \<and>
    get_mongo_vector_search env st doc_url = (Inr vs, st1) \<longrightarrow>
      (\<exists>texts docs. docs \<noteq> [] \<and>
         trace st1 = trace st @ (if mongo_collection st = None then [Connect] else []) @
           [Download doc_url, Load (file_suffix doc_url), Embed texts, StoreWrite docs] \<and>
         persisted st1 = persisted st @ docs) \<and>
      get_mongo_vector_search env2 st1 doc_url = (Inr bound_handle, st1))"
proof (intro conjI impI)
  assume a: "(\<exists>d\<in>set (persisted st). map_of (stored_metadata d) ''source_url'' = Some (MStr doc_url)) \<and>
    (mongo_collection st \<noteq> None \<or> can_connect env)"
  then have "\<exists>d\<in>set (persisted st). has_source_url doc_url d"
    by (simp only: has_source_url_def)
  then have c: "count_documents (persisted st) doc_url 1 \<noteq> 0"
    by (simp only: count_documents_pos)
  from a have r: "mongo_collection st \<noteq> None \<or> can_connect env"
    by (rule conjunct2)
  note g = gate_indexed [OF c, of env]
  from r show "fst (get_mongo_vector_search env st doc_url) = Inr bound_handle"
    unfolding g by auto
  from r show "persisted (snd (get_mongo_vector_search env st doc_url)) = persisted st"
    unfolding g by auto
  from r show "trace (snd (get_mongo_vector_search env st doc_url)) =
        trace st @ (if mongo_collection st = None then [Connect] else [])"
    unfolding g by auto
next
  assume b: "count_documents (persisted st) doc_url 1 = 0 \<and>
    get_mongo_vector_search env st doc_url = (Inr vs, st1)"
  then have n: "count_documents (persisted st) doc_url 1 = 0"
    and g: "get_mongo_vector_search env st doc_url = (Inr vs, st1)"
    by (rule conjunct1, rule conjunct2)
  show "\<exists>texts docs. docs \<noteq> [] \<and>
         trace st1 = trace st @ (if mongo_collection st = None then [Connect] else []) @
           [Download doc_url, Load (file_suffix doc_url), Embed texts, StoreWrite docs] \<and>
         persisted st1 = persisted st @ docs"
    by (rule gate_ingest(3) [OF n g])
  from gate_ingest(1) [OF n g] gate_indexed [OF gate_ingest(2) [OF n g], of env2]
  show "get_mongo_vector_search env2 st1 doc_url = (Inr bound_handle, st1)"
    by simp
qed


theorem indexed_url_skips_ingestion_witness:
  "map_of (stored_metadata (hd (persisted st_indexed))) ''source_url'' = Some (MStr example_url) \<and>
   hd (persisted st_indexed) \<in> set (persisted st_indexed) \<and>
   mongo_collection st_indexed \<noteq> None \<and>
   fst (get_mongo_vector_search example_env st_indexed example_url) = Inr bound_handle \<and>
   trace (snd (get_mongo_vector_search example_env st_indexed example_url)) = [] \<and>
   count_documents (persisted st_fresh) example_url 1 = 0 \<and>
   fst (get_mongo_vector_search example_env st_fresh example_url) = Inr bound_handle \<and>
   length (store_writes (trace (snd (get_mongo_vector_search example_env st_fresh example_url)))) = 1 \<and>
   get_mongo_vector_search env_blank
       (snd (get_mongo_vector_search example_env st_fresh example_url)) example_url =
     (Inr bound_handle, snd (get_mongo_vector_search example_env st_fresh example_url))"
proof -
  let ?st1 = "snd (get_mongo_vector_search example_env st_fresh example_url)"
  have h1: "map_of (stored_metadata (hd (persisted st_indexed))) ''source_url'' = Some (MStr example_url)"
    and h2: "hd (persisted st_indexed) \<in> set (persisted st_indexed)"
    and h3: "mongo_collection st_indexed \<noteq> None"
    and t: "trace st_indexed = []"
    by (simp_all add: st_indexed_def)
  from h1 h2 have ex: "\<exists>d\<in>set (persisted st_indexed).
      map_of (stored_metadata d) ''source_url'' = Some (MStr example_url)"
    by (rule rev_bexI [rotated])
  have n: "count_documents (persisted st_fresh) example_url 1 = 0"
    and f: "mongo_collection st_fresh = None" "trace st_fresh = []"
    by (simp_all add: st_fresh_def count_documents_def)
  have fs: "file_suffix example_url = ''.pdf''"
    unfolding example_url_def by code_simp
  have l: "loader example_env example_url = load_pdf example_env"
    by (simp add: loader_def fs)
  have gc: "get_document_chunks example_env st example_url =
      (Inr [stamp example_url \<lparr>page_content = ''alpha beta'', metadata = [(''page'', MInt 0)]\<rparr>],
       log_event (Load ''.pdf'') (log_event (Download example_url) st))" for st
    unfolding get_document_chunks_def l fs by (simp add: example_env_def Let_def)
  have fd: "fst (from_documents example_env st [c]) = Inr bound_handle" for st c
    by (simp add: from_documents_def Let_def example_env_def)
  have cc: "can_connect example_env"
    by (simp add: example_env_def)
  have fg: "fst (get_mongo_vector_search example_env st_fresh example_url) = Inr bound_handle"
    unfolding get_mongo_vector_search_def
    by (simp add: f initialize_mongodb_def Let_def count_documents_def st_fresh_def gc fd cc)
  have g: "get_mongo_vector_search example_env st_fresh example_url = (Inr bound_handle, ?st1)"
    using fg by (metis prod.collapse)
  note p1 = indexed_url_skips_ingestion [of st_indexed example_url example_env bound_handle ?st1 env_blank,
      THEN conjunct1, rule_format, OF conjI, OF ex disjI1, OF h3]
  note p2 = indexed_url_skips_ingestion [of st_fresh example_url example_env bound_handle ?st1 env_blank,
      THEN conjunct2, rule_format, OF conjI, OF n g]
  from p2 obtain texts docs where
    "trace ?st1 = trace st_fresh @ (if mongo_collection st_fresh = None then [Connect] else []) @
        [Download example_url, Load (file_suffix example_url), Embed texts, StoreWrite docs]"
    by (elim conjE exE)
  then have w: "length (store_writes (trace ?st1)) = 1"
    by (simp add: f)
  from p1 have a1: "fst (get_mongo_vector_search example_env st_indexed example_url) = Inr bound_handle"
    by (rule conjunct1)
  from p1 have a2: "trace (snd (get_mongo_vector_search example_env st_indexed example_url)) = []"
    using t h3 by simp
  from p2 have a3: "get_mongo_vector_search env_blank ?st1 example_url = (Inr bound_handle, ?st1)"
    by (rule conjunct2)
  from h1 h2 h3 a1 a2 n fg w a3 show ?thesis
    by (intro conjI)
qed


text \<open>
  C6. A request calls the generative model at most once. It calls it once, on the one prompt
  built from the whole evidence set and holding every question with its number, when the
  gate and every search succeed and the evidence set is not empty; it does not call it when
  the gate or a search fails, or when the evidence set is empty. A request whose questions
  retrieve nothing is answered without any call.
\<close>

theorem llm_invoked_at_most_once:
  "\<exists>es. trace (snd (run_submission env st request)) = trace st @ es \<and>
     length (llm_calls es) \<le> 1 \<and>
     llm_calls es =
       (case get_mongo_vector_search env st (documents request) of
          (Inl e, st1) \<Rightarrow> []
        | (Inr vs, st1) \<Rightarrow>
            (case retrieve_all env st1 (questions request) [] of
               (Inl e, st2) \<Rightarrow> []
             | (Inr ev, st2) \<Rightarrow>
                 if ev = [] then [] else [final_prompt_str ev (questions request)])) \<and>
     (\<forall>i<length (questions request). \<forall>ev.
        contains (str_nat (i + 1) @ ''. '' @ questions request ! i)
          (final_prompt_str ev (questions request)))"
proof -
  from run_body_llm_calls [of env st request] obtain es where
    t: "trace (snd (run_body env st request)) = trace st @ es" and
    c: "llm_calls es =
       (case get_mongo_vector_search env st (documents request) of
          (Inl e, st1) \<Rightarrow> []
        | (Inr vs, st1) \<Rightarrow>
            (case retrieve_all env st1 (questions request) [] of
               (Inl e, st2) \<Rightarrow> []
             | (Inr ev, st2) \<Rightarrow>
                 if ev = [] then [] else [final_prompt_str ev (questions request)]))"
    by (elim exE conjE)
  have l: "length (llm_calls es) \<le> 1"
    unfolding c by (simp split: prod.splits sum.splits)
  have q: "\<forall>i<length (questions request). \<forall>ev.
        contains (str_nat (i + 1) @ ''. '' @ questions request ! i)
          (final_prompt_str ev (questions request))"
    by (intro allI impI prompt_holds_question)
  from t l c q show ?thesis
    unfolding snd_run_submission by (intro exI [of _ es] conjI)
qed


theorem llm_invoked_at_most_once_witness:
  "llm_calls (trace (snd (run_submission example_env st_indexed example_request))) =
     [final_prompt_str [(''alpha'', chunk_a), (''beta'', chunk_b), (''gamma'', chunk_c)]
        [''q1'', ''q2'']] \<and>
   contains ''1. q1''
     (final_prompt_str [(''alpha'', chunk_a), (''beta'', chunk_b), (''gamma'', chunk_c)]
        [''q1'', ''q2''])"
proof -
  let ?ev = "[(''alpha'', chunk_a), (''beta'', chunk_b), (''gamma'', chunk_c)]"
  have qs: "questions example_request = [''q1'', ''q2'']"
    by (simp add: example_request_def)
  have g: "get_mongo_vector_search example_env st_indexed (documents example_request) =
      (Inr bound_handle, st_indexed)"
    by (simp add: get_mongo_vector_search_def st_indexed_def example_request_def
        count_documents_def has_source_url_def)
  have r: "retrieve_all example_env st_indexed [''q1'', ''q2''] [] =
      (Inr ?ev, log_event (Search ''q2'' 5) (log_event (Search ''q1'' 5) st_indexed))"
    by (simp add: example_env_def Let_def chunk_a_def chunk_b_def chunk_c_def)
  have t: "trace st_indexed = []"
    by (simp add: st_indexed_def)
  have line: "str_nat (0 + 1) @ ''. '' @ [''q1'', ''q2''] ! 0 = ''1. q1''"
    by code_simp
  from llm_invoked_at_most_once [of example_env st_indexed example_request] obtain es where
    1: "trace (snd (run_submission example_env st_indexed example_request)) = trace st_indexed @ es"
    and 2: "llm_calls es =
       (case get_mongo_vector_search example_env st_indexed (documents example_request) of
          (Inl e, st1) \<Rightarrow> []
        | (Inr vs, st1) \<Rightarrow>
            (case retrieve_all example_env st1 (questions example_request) [] of
               (Inl e, st2) \<Rightarrow> []
             | (Inr ev, st2) \<Rightarrow>
                 if ev = [] then [] else [final_prompt_str ev (questions example_request)]))"
    and 3: "\<forall>i<length (questions example_request). \<forall>ev.
        contains (str_nat (i + 1) @ ''. '' @ questions example_request ! i)
          (final_prompt_str ev (questions example_request))"
    by (elim exE conjE)
  have "llm_calls es = [final_prompt_str ?ev [''q1'', ''q2'']]"
    unfolding 2 g qs prod.case sum.case r by simp
  then have a: "llm_calls (trace (snd (run_submission example_env st_indexed example_request))) =
     [final_prompt_str ?ev [''q1'', ''q2'']]"
    by (simp only: 1 t append_Nil)
  have "0 < length [''q1'', ''q2'']"
    by simp
  with 3 [unfolded qs] have "contains (str_nat (0 + 1) @ ''. '' @ [''q1'', ''q2''] ! 0)
      (final_prompt_str ?ev [''q1'', ''q2''])"
    by (elim allE impE)
  then have b: "contains ''1. q1'' (final_prompt_str ?ev [''q1'', ''q2''])"
    by (simp only: line)
  from a b show ?thesis
    by (intro conjI)
qed

text \<open>Two questions that retrieve nothing: the trace of the request holds no call.\<close>

theorem no_evidence_no_call_counterexample:
  "llm_calls (trace (snd (run_submission env_no_evidence st_indexed example_request))) = []"
proof -
  have g: "get_mongo_vector_search env_no_evidence st_indexed (documents example_request) =
      (Inr bound_handle, st_indexed)"
    by (simp add: get_mongo_vector_search_def st_indexed_def example_request_def
        count_documents_def has_source_url_def)
  have r: "retrieve_all env_no_evidence st_indexed (questions example_request) [] =
      (Inr [], log_event (Search ''q2'' 5) (log_event (Search ''q1'' 5) st_indexed))"
    by (simp add: example_request_def env_no_evidence_def Let_def)
  have "snd (run_body env_no_evidence st_indexed example_request) =
      log_event (Search ''q2'' 5) (log_event (Search ''q1'' 5) st_indexed)"
    by (simp add: run_body_def g r)
  then show ?thesis
    by (simp add: snd_run_submission st_indexed_def)
qed

end
